theory Spec2Isabelle
  imports Main "HOL-Library.Sublist"
begin

section \<open>Python values used by the builder\<close>

text \<open>
  Python strings are modelled as \<^typ>\<open>string\<close>. The few non-ASCII characters of the
  prompt templates (an arrow and a check mark) appear as their UTF-8 bytes; every token
  that the program searches for is ASCII, so its occurrences in the byte string are
  exactly its occurrences in the Python string. Two operations agree with Python on ASCII
  text only: \<open>str_upper\<close> changes the ASCII letters, and a slice such as \<open>[:300]\<close> is
  taken on bytes.
\<close>

datatype exn =
    Exception string       \<comment> \<open>an instance of \<open>Exception\<close>; the argument is \<open>str(e)\<close>\<close>
  | BaseException string   \<comment> \<open>\<open>KeyboardInterrupt\<close>, \<open>SystemExit\<close>, \<open>asyncio.CancelledError\<close>, ...:
                               a \<open>BaseException\<close> that is not an \<open>Exception\<close>\<close>

fun str_exn :: "exn \<Rightarrow> string" where
  "str_exn (Exception s) = s"
| "str_exn (BaseException s) = s"

fun is_Exception :: "exn \<Rightarrow> bool" where
  "is_Exception (Exception s) = True"
| "is_Exception (BaseException s) = False"

definition KeyError :: "string \<Rightarrow> exn" where
  "KeyError k = Exception ([CHR 0x27] @ k @ [CHR 0x27])"

definition digit_char :: "nat \<Rightarrow> char" where
  "digit_char d = ''0123456789'' ! d"

function digits :: "nat \<Rightarrow> string" where
  "digits n = (if n < 10 then [digit_char n] else digits (n div 10) @ [digit_char (n mod 10)])"
  by pat_completeness auto
termination
  by (relation "measure id") auto

declare digits.simps [simp del]

definition str_int :: "int \<Rightarrow> string" where
  \<comment> \<open>\<open>str(i)\<close> for a Python int\<close>
  "str_int i = (if i < 0 then CHR ''-'' # digits (nat (- i)) else digits (nat i))"

definition upper_char :: "char \<Rightarrow> char" where
  "upper_char c =
     (case map_of (zip ''abcdefghijklmnopqrstuvwxyz'' ''ABCDEFGHIJKLMNOPQRSTUVWXYZ'') c of
        Some u \<Rightarrow> u
      | None \<Rightarrow> c)"

definition str_upper :: "string \<Rightarrow> string" where
  \<comment> \<open>\<open>s.upper()\<close> on ASCII letters; other bytes are kept\<close>
  "str_upper s = map upper_char s"

function replace :: "string \<Rightarrow> string \<Rightarrow> string \<Rightarrow> string" where
  \<comment> \<open>\<open>s.replace(old, new)\<close>: every non-overlapping occurrence, scanning from the left\<close>
  "replace [] old new = (if old = [] then new else [])"
| "replace (c # cs) old new =
     (if old = [] then new @ concat (map (\<lambda>x. x # new) (c # cs))
      else if prefix old (c # cs) then new @ replace (drop (length old) (c # cs)) old new
      else c # replace cs old new)"
  by pat_completeness auto
termination
  by (relation "measure (\<lambda>(s, old, new). length s)") (auto simp: neq_Nil_conv)

definition path_join :: "string \<Rightarrow> string \<Rightarrow> string" where
  \<comment> \<open>\<open>str(Path(a) / b)\<close> for a relative, non-empty \<open>b\<close>\<close>
  "path_join a b = a @ ''/'' @ b"

section \<open>Configuration\<close>

definition LIFEOS_ROOT :: string where
  "LIFEOS_ROOT = ''/home/louisdup/Agents/lifeOS''"

definition ECHO_MVP_DIR :: string where
  "ECHO_MVP_DIR = path_join LIFEOS_ROOT ''echo-mvp''"

definition MASTRA_BACKEND :: string where
  "MASTRA_BACKEND = path_join ECHO_MVP_DIR ''mastra-backend''"

definition EXPO_APP :: string where
  "EXPO_APP = path_join ECHO_MVP_DIR ''expo-app''"

definition AUTO_CONTINUE_DELAY :: nat where
  "AUTO_CONTINUE_DELAY = 5"

section \<open>Prompt templates (\<open>get_agent_prompt\<close>)\<close>

definition common_context :: "string \<Rightarrow> int \<Rightarrow> string" where
  "common_context agent_type iteration =
     ''# LifeOS Autonomous Build - '' @
     str_upper agent_type @
     '' Agent\<newline>'' @
     ''\<newline>'' @
     ''**Project:** LifeOS (Echo/Lark) - Personal Operating System MVP\<newline>'' @
     ''**Root:** '' @
     LIFEOS_ROOT @
     ''\<newline>'' @
     ''**Backend:** '' @
     MASTRA_BACKEND @
     ''\<newline>'' @
     ''**Frontend:** '' @
     EXPO_APP @
     ''\<newline>'' @
     ''**Iteration:** '' @
     str_int iteration @
     ''\<newline>'' @
     ''\<newline>'' @
     ''## Your Mission\<newline>'' @
     ''You are a specialized autonomous coding agent responsible for building and maintaining\<newline>'' @
     ''the '' @
     agent_type @
     '' component of lifeOS. You work continuously and autonomously.\<newline>'' @
     ''\<newline>'' @
     ''## Project Context\<newline>'' @
     ''LifeOS is a WhatsApp-style personal OS app with AI agents for productivity:\<newline>'' @
     ''- @mail agent: Gmail/email management\<newline>'' @
     ''- @cal agent: Calendar integration\<newline>'' @
     ''- @mem agent: Personal memory/search\<newline>'' @
     ''- Frontend: React Native Expo app\<newline>'' @
     ''\<newline>'' @
     ''Current status: ~70% code complete, needs testing, completion, and polish.\<newline>'' @
     ''\<newline>'' @
     ''## Your Responsibilities\<newline>''"

definition database_prompt :: string where
  "database_prompt =
     ''\<newline>'' @
     ''**Component:** Neon PostgreSQL Database Setup\<newline>'' @
     ''**Architecture:** Hosted backend (VPS + Neon)\<newline>'' @
     ''\<newline>'' @
     ''### Tasks (Priority Order):\<newline>'' @
     ''1. Read HOSTED_ARCHITECTURE.md to understand new architecture\<newline>'' @
     ''2. Create database schema file (schema.sql) with tables:\<newline>'' @
     ''   - users (id, email, username, password_hash)\<newline>'' @
     ''   - messages (id, user_id, content, role, agent_name, metadata)\<newline>'' @
     ''   - agent_state (id, user_id, agent_name, state_data)\<newline>'' @
     ''   - sessions (id, user_id, token, expires_at)\<newline>'' @
     ''3. Create migration script to set up Neon database\<newline>'' @
     ''4. Add database connection to Mastra backend\<newline>'' @
     ''5. Update backend to use PostgreSQL instead of LibSQL\<newline>'' @
     ''6. Test database connection and queries\<newline>'' @
     ''\<newline>'' @
     ''### Success Criteria:\<newline>'' @
     ''- Schema file created and documented\<newline>'' @
     ''- Can connect to Neon from backend\<newline>'' @
     ''- Messages table can store/retrieve chat messages\<newline>'' @
     ''- All indexes created for performance\<newline>'' @
     ''\<newline>'' @
     ''### Technologies:\<newline>'' @
     ''- @neondatabase/serverless\<newline>'' @
     ''- PostgreSQL\<newline>'' @
     ''- SQL migrations\<newline>''"

definition email_prompt :: string where
  "email_prompt =
     ''\<newline>'' @
     ''**Component:** Email Agent (@mail) - Mastra backend + Neon DB\<newline>'' @
     ''**Files:** {mastra}/src/agents/email-agent.ts, {mastra}/src/tools/gmail-tools.ts\<newline>'' @
     ''\<newline>'' @
     ''### Tasks (Priority Order):\<newline>'' @
     ''1. Update email agent to store messages in Neon database\<newline>'' @
     ''2. Update agent memory to use PostgreSQL (agent_state table)\<newline>'' @
     ''3. Test Gmail OAuth integration (see GMAIL_OAUTH_SETUP.md)\<newline>'' @
     ''4. Verify all email tools work with database: list, search, get details, draft, send\<newline>'' @
     ''5. Ensure conversation history persists to database\<newline>'' @
     ''6. Add error handling and edge cases\<newline>'' @
     ''7. Test with real Gmail API\<newline>'' @
     ''\<newline>'' @
     ''### Success Criteria:\<newline>'' @
     ''- Email agent uses Neon for message storage\<newline>'' @
     ''- Conversation history persists across sessions\<newline>'' @
     ''- All Gmail tools functional with DB integration\<newline>'' @
     ''- OAuth flow works\<newline>'' @
     ''- Draft '' @ [CHR 0xE2, CHR 0x86, CHR 0x92] @ '' send workflow reliable\<newline>'' @
     ''\<newline>'' @
     ''### Current Issues to Address:\<newline>'' @
     ''- Migrate from LibSQL to PostgreSQL\<newline>'' @
     ''- Store agent state in agent_state table\<newline>'' @
     ''- Update memory configuration for Neon\<newline>''"

definition calendar_prompt :: string where
  "calendar_prompt =
     ''\<newline>'' @
     ''**Component:** Calendar Agent (@cal) - Needs implementation\<newline>'' @
     ''**Files:** {mastra}/src/agents/ (create calendar-agent.ts), {mastra}/src/tools/ (create calendar-tools.ts)\<newline>'' @
     ''\<newline>'' @
     ''### Tasks (Priority Order):\<newline>'' @
     ''1. Review calendar requirements in docs/stage-0-spec.md\<newline>'' @
     ''2. Create calendar agent following email-agent.ts pattern\<newline>'' @
     ''3. Implement Google Calendar OAuth\<newline>'' @
     ''4. Create calendar tools: list events, create event, update event, delete event\<newline>'' @
     ''5. Add natural language date parsing\<newline>'' @
     ''6. Test with real Google Calendar API\<newline>'' @
     ''7. Add to agent registry/routing\<newline>'' @
     ''8. Create tests\<newline>'' @
     ''\<newline>'' @
     ''### Success Criteria:\<newline>'' @
     ''- Calendar agent created and registered\<newline>'' @
     ''- Google Calendar OAuth working\<newline>'' @
     ''- All CRUD operations functional\<newline>'' @
     ''- Natural language date handling ('' @ [CHR 0x22] @ ''tomorrow at 3pm'' @ [CHR 0x22] @ '')\<newline>'' @
     ''- Tests passing\<newline>'' @
     ''\<newline>'' @
     ''### Reference:\<newline>'' @
     ''- Email agent structure: {mastra}/src/agents/email-agent.ts\<newline>'' @
     ''- Mastra docs for agent creation\<newline>''"

definition memory_prompt :: string where
  "memory_prompt =
     ''\<newline>'' @
     ''**Component:** Memory Agent (@mem) - Search/RAG system\<newline>'' @
     ''**Files:** {mastra}/src/agents/ (create memory-agent.ts), database setup\<newline>'' @
     ''\<newline>'' @
     ''### Tasks (Priority Order):\<newline>'' @
     ''1. Review memory requirements in docs/stage-0-spec.md\<newline>'' @
     ''2. Design memory storage (LibSQL/SQLite)\<newline>'' @
     ''3. Create memory agent for semantic search\<newline>'' @
     ''4. Implement full-text search across all contexts\<newline>'' @
     ''5. Add conversation history storage\<newline>'' @
     ''6. Implement RAG-based retrieval\<newline>'' @
     ''7. Create memory tools: search, store, recall\<newline>'' @
     ''8. Test with sample data\<newline>'' @
     ''\<newline>'' @
     ''### Success Criteria:\<newline>'' @
     ''- Memory agent created\<newline>'' @
     ''- Database schema defined\<newline>'' @
     ''- Full-text search working\<newline>'' @
     ''- RAG retrieval functional\<newline>'' @
     ''- Conversation history persisted\<newline>'' @
     ''- Fast search (<500ms)\<newline>'' @
     ''\<newline>'' @
     ''### Technologies:\<newline>'' @
     ''- LibSQLStore (already used in email-agent)\<newline>'' @
     ''- Vector embeddings (optional MVP enhancement)\<newline>'' @
     ''- Mastra Memory system\<newline>''"

definition frontend_prompt_first :: string where
  "frontend_prompt_first =
     ''\<newline>'' @
     ''**Component:** Expo React Native Frontend\<newline>'' @
     ''**Files:** {expo}/App.js, {expo}/app/**, {expo}/components/**\<newline>'' @
     ''\<newline>'' @
     ''### Tasks (Priority Order):\<newline>'' @
     ''1. Review existing Expo app structure\<newline>'' @
     ''2. Fix any dependency issues (npm install)\<newline>'' @
     ''3. Test chat interface\<newline>'' @
     ''4. Connect to Mastra backend (http://localhost:3001)\<newline>'' @
     ''5. Implement @mention agent routing\<newline>'' @
     ''6. Test email agent UI flows\<newline>'' @
     ''7. Add calendar agent UI (when ready)\<newline>'' @
     ''8. Add memory agent UI (when ready)\<newline>'' @
     ''9. Polish UI/UX\<newline>'' @
     ''10. Test on physical device (if available)\<newline>'' @
     ''\<newline>'' @
     ''### Success Criteria:\<newline>'' @
     ''- App runs without errors\<newline>'' @
     ''- Chat interface functional\<newline>'' @
     ''- Backend connection working\<newline>'' @
     ''- @mail agent accessible via @mention\<newline>'' @
     ''- Message sending/receiving works\<newline>'' @
     ''- UI is polished and responsive\<newline>'' @
     ''\<newline>'' @
     ''### Technologies:\<newline>'' @
     ''- React Native / Expo\<newline>'' @
     ''- Expo Router (app/ directory)\<newline>'' @
     ''- Backend API calls to localhost:3001\<newline>''"

definition backend_prompt :: string where
  "backend_prompt =
     ''\<newline>'' @
     ''**Component:** Backend API Server (Express + Mastra + Neon)\<newline>'' @
     ''**Files:** {mastra}/src/index.ts, {mastra}/src/api/**, {mastra}/package.json\<newline>'' @
     ''\<newline>'' @
     ''### Tasks (Priority Order):\<newline>'' @
     ''1. Read HOSTED_ARCHITECTURE.md for new architecture\<newline>'' @
     ''2. Install Neon PostgreSQL client (@neondatabase/serverless)\<newline>'' @
     ''3. Create API endpoints:\<newline>'' @
     ''   - POST /api/auth/register\<newline>'' @
     ''   - POST /api/auth/login\<newline>'' @
     ''   - GET  /api/messages\<newline>'' @
     ''   - POST /api/messages\<newline>'' @
     ''   - GET  /api/agents\<newline>'' @
     ''4. Add database connection middleware\<newline>'' @
     ''5. Add JWT authentication middleware\<newline>'' @
     ''6. Update agent routing to store in database\<newline>'' @
     ''7. Add error handling and logging\<newline>'' @
     ''8. Test all endpoints\<newline>'' @
     ''\<newline>'' @
     ''### Success Criteria:\<newline>'' @
     ''- Backend connects to Neon\<newline>'' @
     ''- Auth endpoints work (register/login)\<newline>'' @
     ''- Messages endpoint saves to database\<newline>'' @
     ''- Agent routing integrated\<newline>'' @
     ''- CORS configured for frontend\<newline>'' @
     ''- Environment variables properly configured\<newline>'' @
     ''\<newline>'' @
     ''### Technologies:\<newline>'' @
     ''- Express.js\<newline>'' @
     ''- @neondatabase/serverless\<newline>'' @
     ''- jsonwebtoken (JWT)\<newline>'' @
     ''- bcrypt (password hashing)\<newline>''"

definition frontend_prompt :: string where
  "frontend_prompt =
     ''\<newline>'' @
     ''**Component:** Expo Frontend - API Integration\<newline>'' @
     ''**Files:** {expo}/App.js, {expo}/app/**, {expo}/components/**\<newline>'' @
     ''\<newline>'' @
     ''### Tasks (Priority Order):\<newline>'' @
     ''1. Read HOSTED_ARCHITECTURE.md for new architecture\<newline>'' @
     ''2. Remove local SQLite code\<newline>'' @
     ''3. Create API client (fetch wrapper)\<newline>'' @
     ''4. Add auth screens (login/register)\<newline>'' @
     ''5. Add JWT token storage (AsyncStorage)\<newline>'' @
     ''6. Update chat UI to use API endpoints\<newline>'' @
     ''7. Add @mention routing to backend\<newline>'' @
     ''8. Test message sending/receiving\<newline>'' @
     ''9. Add error handling for network issues\<newline>'' @
     ''10. Test on device/simulator\<newline>'' @
     ''\<newline>'' @
     ''### Success Criteria:\<newline>'' @
     ''- App connects to backend API\<newline>'' @
     ''- Login/register works\<newline>'' @
     ''- Messages save to database via API\<newline>'' @
     ''- Chat interface responsive\<newline>'' @
     ''- @mail mentions route correctly\<newline>'' @
     ''- Works on iOS and Android\<newline>'' @
     ''\<newline>'' @
     ''### Technologies:\<newline>'' @
     ''- React Native / Expo\<newline>'' @
     ''- AsyncStorage (JWT storage)\<newline>'' @
     ''- Fetch API\<newline>'' @
     ''- Expo Router\<newline>''"

definition orchestrator_prompt :: string where
  "orchestrator_prompt =
     ''\<newline>'' @
     ''**Component:** Full Stack Orchestrator - HOSTED ARCHITECTURE\<newline>'' @
     ''**Architecture:** VPS Backend + Neon PostgreSQL + Expo Frontend\<newline>'' @
     ''**Scope:** Entire LifeOS MVP - Unified Chat Interface\<newline>'' @
     ''\<newline>'' @
     ''### CRITICAL: Read HOSTED_ARCHITECTURE.md First!\<newline>'' @
     ''We'' @ [CHR 0x27] @ ''ve pivoted to a hosted architecture. Local-first iOS is DEPRECATED.\<newline>'' @
     ''\<newline>'' @
     ''### Your Role:\<newline>'' @
     ''You coordinate the overall build for HOSTED setup. Each iteration:\<newline>'' @
     ''1. Review HOSTED_ARCHITECTURE.md\<newline>'' @
     ''2. Identify highest priority task for hosted setup\<newline>'' @
     ''3. Make progress on that task\<newline>'' @
     ''4. Update progress tracking\<newline>'' @
     ''5. Move to next priority\<newline>'' @
     ''\<newline>'' @
     ''### Current Priority (Hosted MVP):\<newline>'' @
     ''1. **DATABASE**: Create Neon PostgreSQL schema\<newline>'' @
     ''2. **BACKEND**: Set up Express API + Neon connection\<newline>'' @
     ''3. **AUTH**: Implement user registration/login (JWT)\<newline>'' @
     ''4. **MESSAGES**: Message storage and retrieval endpoints\<newline>'' @
     ''5. **AGENTS**: Update @mail agent to use Neon\<newline>'' @
     ''6. **FRONTEND**: Update Expo app to connect to API\<newline>'' @
     ''7. **DEPLOY**: Prepare for VPS deployment\<newline>'' @
     ''8. **TEST**: End-to-end testing\<newline>'' @
     ''\<newline>'' @
     ''### Decision Making:\<newline>'' @
     ''- Focus on hosted architecture ONLY\<newline>'' @
     ''- Ignore local SQLite, CloudKit, Swift code\<newline>'' @
     ''- Build standard REST API\<newline>'' @
     ''- Use Neon PostgreSQL for everything\<newline>'' @
     ''- Keep it simple and deployable\<newline>'' @
     ''\<newline>'' @
     ''### Success Criteria (Hosted MVP Complete):\<newline>'' @
     ''- '' @ [CHR 0xE2, CHR 0x9C, CHR 0x85] @ '' Neon database schema created\<newline>'' @
     ''- '' @ [CHR 0xE2, CHR 0x9C, CHR 0x85] @ '' Backend API deployed on VPS\<newline>'' @
     ''- '' @ [CHR 0xE2, CHR 0x9C, CHR 0x85] @ '' Auth working (register/login)\<newline>'' @
     ''- '' @ [CHR 0xE2, CHR 0x9C, CHR 0x85] @ '' Messages persist to database\<newline>'' @
     ''- '' @ [CHR 0xE2, CHR 0x9C, CHR 0x85] @ '' @mail agent integrated\<newline>'' @
     ''- '' @ [CHR 0xE2, CHR 0x9C, CHR 0x85] @ '' Frontend connects to backend\<newline>'' @
     ''- '' @ [CHR 0xE2, CHR 0x9C, CHR 0x85] @ '' Unified chat interface working\<newline>'' @
     ''- '' @ [CHR 0xE2, CHR 0x9C, CHR 0x85] @ '' Ready for multi-device testing\<newline>'' @
     ''\<newline>'' @
     ''### Architecture Stack:\<newline>'' @
     ''- **Database:** Neon PostgreSQL\<newline>'' @
     ''- **Backend:** Node.js + Express + Mastra\<newline>'' @
     ''- **Frontend:** React Native Expo\<newline>'' @
     ''- **Deploy:** Railway/Fly.io/DigitalOcean\<newline>'' @
     ''- **Auth:** JWT tokens\<newline>''"

definition footer_template :: string where
  "footer_template =
     ''\<newline>'' @
     ''\<newline>'' @
     ''## Working Style:\<newline>'' @
     ''1. Start by reading relevant files to understand current state\<newline>'' @
     ''2. Make ONE focused change at a time\<newline>'' @
     ''3. Test your changes when possible\<newline>'' @
     ''4. Update progress logs\<newline>'' @
     ''5. If blocked, document the blocker and move to next task\<newline>'' @
     ''\<newline>'' @
     ''## Important Files:\<newline>'' @
     ''- Project specs: {root}/docs/stage-0-spec.md\<newline>'' @
     ''- Implementation status: {root}/IMPLEMENTATION_STATUS.md\<newline>'' @
     ''- Progress: {echo}/claude-progress.txt\<newline>'' @
     ''- Feature tests: {echo}/feature_list.json\<newline>'' @
     ''\<newline>'' @
     ''## Commands:\<newline>'' @
     ''- Start backend: cd {mastra} && npm run api\<newline>'' @
     ''- Start frontend: cd {expo} && npx expo start\<newline>'' @
     ''- Test backend: cd {mastra} && npm test (if tests exist)\<newline>'' @
     ''\<newline>'' @
     ''## Guidelines:\<newline>'' @
     ''- Work autonomously - don'' @ [CHR 0x27] @ ''t ask for permission\<newline>'' @
     ''- Be productive - make real progress each iteration\<newline>'' @
     ''- Test your changes when possible\<newline>'' @
     ''- Document what you do\<newline>'' @
     ''- Focus on making the app work, not perfect\<newline>'' @
     ''\<newline>'' @
     ''## This Iteration:\<newline>'' @
     ''Analyze the current state and make ONE meaningful improvement.\<newline>'' @
     ''Then summarize what you did in 2-3 sentences.\<newline>'' @
     ''\<newline>'' @
     ''BEGIN YOUR WORK NOW.\<newline>''"

text \<open>
  The dictionary literal of the source lists the key \<open>frontend\<close> twice; as in Python, the
  later entry replaces the earlier one.
\<close>

definition agent_prompts :: "string \<rightharpoonup> string" where
  "agent_prompts =
     [''database'' \<mapsto> database_prompt,
      ''email'' \<mapsto> email_prompt,
      ''calendar'' \<mapsto> calendar_prompt,
      ''memory'' \<mapsto> memory_prompt,
      ''frontend'' \<mapsto> frontend_prompt_first,
      ''backend'' \<mapsto> backend_prompt,
      ''frontend'' \<mapsto> frontend_prompt,
      ''orchestrator'' \<mapsto> orchestrator_prompt]"

definition footer :: string where
  "footer =
     replace (replace (replace (replace footer_template
       ''{root}'' LIFEOS_ROOT) ''{echo}'' ECHO_MVP_DIR) ''{mastra}'' MASTRA_BACKEND) ''{expo}'' EXPO_APP"

definition get_agent_prompt :: "string \<Rightarrow> int \<Rightarrow> exn + string" where
  "get_agent_prompt agent_type iteration =
     (case agent_prompts ''orchestrator'' of
        None \<Rightarrow> Inl (KeyError ''orchestrator'')
      | Some fallback \<Rightarrow>
          let prompt = common_context agent_type iteration @
                       (case agent_prompts agent_type of Some body \<Rightarrow> body | None \<Rightarrow> fallback);
              prompt = replace prompt ''{mastra}'' MASTRA_BACKEND;
              prompt = replace prompt ''{expo}'' EXPO_APP;
              prompt = prompt @ footer
          in Inr prompt)"

section \<open>The agent runtime (external collaborator)\<close>

text \<open>
  The SDK's messages are dispatched on the name of their class and on the presence of
  attributes. A block records what the program reads from it: an optional attribute is
  \<open>None\<close> when \<open>hasattr\<close> fails, \<open>is_error\<close> is the truth value of
  \<open>getattr(block, "is_error", False)\<close>, and a tool result's content is already
  \<open>str(content)\<close>.
\<close>

datatype block =
    TextBlock "string option"
  | ToolUseBlock "string option"
  | ToolResultBlock bool "string option"
  | OtherBlock

datatype message =
    AssistantMessage "block list option"
  | UserMessage "block list option"
  | OtherMessage

text \<open>
  The runtime is outside the repository: nothing is assumed of it. Its behaviour is a
  parameter of the model, and the theorems hold for each one.
  A client is what the runtime does during one session: whether entering the
  \<open>async with\<close> block raises, whether \<open>query\<close> raises on a prompt, the messages
  \<open>receive_response\<close> yields and the exception that ends the iteration early (if any),
  and whether leaving the block raises. An exception raised on leaving replaces the one of
  the body; the context manager of the SDK suppresses none.
\<close>

record client =
  aenter :: "exn option"
  query :: "string \<Rightarrow> exn option"
  receive_response :: "string \<Rightarrow> message list \<times> exn option"
  aexit :: "exn option"

type_synonym runtime = "string \<Rightarrow> string \<Rightarrow> exn + client"

section \<open>\<open>run_agent_iteration\<close>\<close>

definition rule_line :: "char \<Rightarrow> string" where
  "rule_line c = replicate 70 c"

fun assistant_block :: "string \<times> string list \<Rightarrow> block \<Rightarrow> string \<times> string list" where
  "assistant_block (response_text, out) (TextBlock (Some text)) =
     (response_text @ text, out @ [text])"
| "assistant_block (response_text, out) (ToolUseBlock name) =
     (let tool_name = (case name of Some n \<Rightarrow> n | None \<Rightarrow> ''unknown'')
      in (response_text, out @ [''\<newline>[Tool: '' @ tool_name @ '']\<newline>'']))"
| "assistant_block acc _ = acc"

fun user_block :: "string \<times> string list \<Rightarrow> block \<Rightarrow> string \<times> string list" where
  "user_block (response_text, out) (ToolResultBlock is_error content) =
     (if is_error
      then (response_text,
            out @ [''   [Error] '' @ take 300 (case content of Some c \<Rightarrow> c | None \<Rightarrow> []) @ ''\<newline>''])
      else (response_text, out @ [''   [Done]\<newline>'']))"
| "user_block acc _ = acc"

fun collect :: "string \<times> string list \<Rightarrow> message \<Rightarrow> string \<times> string list" where
  "collect acc (AssistantMessage (Some content)) = foldl assistant_block acc content"
| "collect acc (UserMessage (Some content)) = foldl user_block acc content"
| "collect acc _ = acc"

text \<open>The \<open>async with client:\<close> statement of \<open>run_agent_iteration\<close>, with its body.\<close>

definition agent_session ::
  "client \<Rightarrow> string \<Rightarrow> string list \<Rightarrow> string list \<times> (exn + string \<times> string)" where
  "agent_session client prompt out =
     (case aenter client of
        Some e \<Rightarrow> (out, Inl e)
      | None \<Rightarrow>
          let (out, r) =
                (case query client prompt of
                   Some e \<Rightarrow> (out, Inl e)
                 | None \<Rightarrow>
                     let (msgs, raised) = receive_response client prompt;
                         (response_text, out) = foldl collect ([], out) msgs
                     in case raised of
                          Some e \<Rightarrow> (out, Inl e)
                        | None \<Rightarrow>
                            (out @ [''\<newline>'' @ rule_line CHR ''-'' @ ''\<newline>\<newline>''],
                             Inr (''success'', response_text)))
          in case aexit client of
               Some e \<Rightarrow> (out, Inl e)
             | None \<Rightarrow> (out, r))"

text \<open>
  The result is the console output and either the returned pair or the exception that
  leaves the function. \<open>create_client\<close> and \<open>get_agent_prompt\<close> are called before the
  \<open>try\<close>; the handler is \<open>except Exception\<close>.
\<close>

definition run_agent_iteration ::
  "runtime \<Rightarrow> string \<Rightarrow> int \<Rightarrow> string \<Rightarrow> string list \<times> (exn + string \<times> string)" where
  "run_agent_iteration create_client agent_type iteration model =
     (let out = [''\<newline>'' @ rule_line CHR ''='' @ ''\<newline>'',
                 ''  '' @ str_upper agent_type @ '' AGENT - Iteration '' @ str_int iteration @ ''\<newline>'',
                 rule_line CHR ''='' @ ''\<newline>\<newline>'']
      in case create_client ECHO_MVP_DIR model of
           Inl e \<Rightarrow> (out, Inl e)
         | Inr client \<Rightarrow>
             (case get_agent_prompt agent_type iteration of
                Inl e \<Rightarrow> (out, Inl e)
              | Inr prompt \<Rightarrow>
                  (case agent_session client prompt out of
                     (out, Inr result) \<Rightarrow> (out, Inr result)
                   | (out, Inl e) \<Rightarrow>
                       if is_Exception e
                       then (out @ [''\<newline>Error in agent iteration: '' @ str_exn e @ ''\<newline>''],
                             Inr (''error'', str_exn e))
                       else (out, Inl e))))"

section \<open>\<open>run_continuous_build\<close>\<close>

text \<open>
  The environment of a run: the runtime met by the \<open>i\<close>-th iteration, the value of
  \<open>datetime.now().isoformat()\<close> when that iteration is logged, and the time stamp in the
  name of the log file. Printing, creating the directory of the logs and writing the log
  file are taken to succeed. The state holds the loop counter, the contents of the session
  log, the arguments of the calls of \<open>asyncio.sleep\<close>, the console output, and the
  iterations for which \<open>run_agent_iteration\<close> was called.
\<close>

record world =
  runtime_at :: "int \<Rightarrow> runtime"
  isoformat_now :: "int \<Rightarrow> string"
  start_stamp :: string

record build_state =
  iteration :: int
  log_file :: string
  sleeps :: "nat list"
  console :: "string list"
  sessions :: "int list"

datatype step = Continue build_state | Break build_state | Raised exn build_state

datatype run = Completed build_state | Uncaught exn build_state

definition max_reached :: "int option \<Rightarrow> int \<Rightarrow> bool" where
  \<comment> \<open>\<open>max_iterations and iteration > max_iterations\<close>\<close>
  "max_reached max_iterations i =
     (case max_iterations of None \<Rightarrow> False | Some m \<Rightarrow> m \<noteq> 0 \<and> i > m)"

definition log_entry :: "int \<Rightarrow> string \<Rightarrow> string \<Rightarrow> string" where
  "log_entry i stamp response =
     ''\<newline>'' @ rule_line CHR ''='' @ ''\<newline>'' @
     ''Iteration '' @ str_int i @ '' - '' @ stamp @ ''\<newline>'' @
     rule_line CHR ''='' @ ''\<newline>'' @
     response @
     ''\<newline>''"

definition log_response :: "world \<Rightarrow> string \<Rightarrow> build_state \<Rightarrow> build_state" where
  \<comment> \<open>the file is opened in append mode\<close>
  "log_response w response s =
     s\<lparr>log_file := log_file s @ log_entry (iteration s) (isoformat_now w (iteration s)) response\<rparr>"

definition handle_status :: "string \<Rightarrow> build_state \<Rightarrow> build_state" where
  "handle_status status s =
     (if status = ''success''
      then s\<lparr>console := console s @
                 [''\<newline>Iteration '' @ str_int (iteration s) @ '' complete. Continuing in '' @
                  str_int (int AUTO_CONTINUE_DELAY) @ ''s...\<newline>''],
             sleeps := sleeps s @ [AUTO_CONTINUE_DELAY]\<rparr>
      else s\<lparr>console := console s @
                 [''\<newline>Iteration '' @ str_int (iteration s) @ '' encountered error. Retrying in '' @
                  str_int (int AUTO_CONTINUE_DELAY) @ ''s...\<newline>''],
             sleeps := sleeps s @ [AUTO_CONTINUE_DELAY]\<rparr>)"

definition brief_pause :: "int option \<Rightarrow> build_state \<Rightarrow> build_state" where
  "brief_pause max_iterations s =
     (if (case max_iterations of None \<Rightarrow> True | Some m \<Rightarrow> iteration s < m)
      then s\<lparr>console := console s @ [''\<newline>Preparing next iteration...\<newline>\<newline>''],
             sleeps := sleeps s @ [1]\<rparr>
      else s)"

text \<open>One pass through the body of \<open>while True\<close>.\<close>

definition loop_step :: "world \<Rightarrow> string \<Rightarrow> int option \<Rightarrow> string \<Rightarrow> build_state \<Rightarrow> step" where
  "loop_step w agent_type max_iterations model s0 =
     (let s = s0\<lparr>iteration := iteration s0 + 1\<rparr>
      in if max_reached max_iterations (iteration s)
         then Break (s\<lparr>console := console s @
                          [''\<newline>Reached max iterations ('' @
                           (case max_iterations of Some m \<Rightarrow> str_int m | None \<Rightarrow> ''None'') @ '')\<newline>'']\<rparr>)
         else
           let s = s\<lparr>sessions := sessions s @ [iteration s]\<rparr>
           in case run_agent_iteration (runtime_at w (iteration s)) agent_type (iteration s) model of
                (out, Inl e) \<Rightarrow> Raised e (s\<lparr>console := console s @ out\<rparr>)
              | (out, Inr (status, response)) \<Rightarrow>
                  Continue (brief_pause max_iterations
                             (handle_status status
                               (log_response w response (s\<lparr>console := console s @ out\<rparr>)))))"

partial_function (option) while_true ::
  "world \<Rightarrow> string \<Rightarrow> int option \<Rightarrow> string \<Rightarrow> build_state \<Rightarrow> run option" where
  "while_true w agent_type max_iterations model s =
     (case loop_step w agent_type max_iterations model s of
        Continue s' \<Rightarrow> while_true w agent_type max_iterations model s'
      | Break s' \<Rightarrow> Some (Completed s')
      | Raised e s' \<Rightarrow> Some (Uncaught e s'))"

definition session_log :: "world \<Rightarrow> string \<Rightarrow> string" where
  "session_log w agent_type =
     path_join (path_join ECHO_MVP_DIR ''logs'') (agent_type @ ''-session-'' @ start_stamp w @ ''.txt'')"

definition initial_state :: "string \<Rightarrow> int option \<Rightarrow> string \<Rightarrow> build_state" where
  "initial_state agent_type max_iterations model =
     \<lparr>iteration = 0,
      log_file = [],
      sleeps = [],
      console =
        [''\<newline>'' @ rule_line CHR ''='' @ ''\<newline>'',
         ''  LIFEOS AUTONOMOUS BUILDER\<newline>'',
         rule_line CHR ''='' @ ''\<newline>'',
         ''\<newline>Agent Type: '' @ agent_type @ ''\<newline>'',
         ''Model: '' @ model @ ''\<newline>'',
         ''Max Iterations: '' @
           (case max_iterations of
              None \<Rightarrow> ''Unlimited''
            | Some m \<Rightarrow> if m \<noteq> 0 then str_int m else ''Unlimited'') @ ''\<newline>'',
         ''Project: '' @ ECHO_MVP_DIR @ ''\<newline>'',
         ''\<newline>'' @ rule_line CHR ''='' @ ''\<newline>\<newline>''],
      sessions = []\<rparr>"

definition final_summary :: "world \<Rightarrow> string \<Rightarrow> build_state \<Rightarrow> build_state" where
  "final_summary w agent_type s =
     s\<lparr>console := console s @
        [''\<newline>'' @ rule_line CHR ''='' @ ''\<newline>'',
         ''  BUILD SESSION COMPLETE\<newline>'',
         rule_line CHR ''='' @ ''\<newline>'',
         ''\<newline>Agent: '' @ agent_type @ ''\<newline>'',
         ''Iterations: '' @ str_int (iteration s) @ ''\<newline>'',
         ''Session log: '' @ session_log w agent_type @ ''\<newline>'',
         ''\<newline>'' @ rule_line CHR ''='' @ ''\<newline>\<newline>'']\<rparr>"

text \<open>
  \<open>None\<close> is a run that never leaves the loop. The log file of a run is new: its name
  carries the time stamp of the start.
\<close>

definition run_continuous_build :: "world \<Rightarrow> string \<Rightarrow> int option \<Rightarrow> string \<Rightarrow> run option" where
  "run_continuous_build w agent_type max_iterations model =
     (case while_true w agent_type max_iterations model (initial_state agent_type max_iterations model) of
        None \<Rightarrow> None
      | Some (Completed s) \<Rightarrow> Some (Completed (final_summary w agent_type s))
      | Some (Uncaught e s) \<Rightarrow> Some (Uncaught e s))"

section \<open>The single-shot wrapper (\<open>claude_code_wrapper.py\<close>)\<close>

text \<open>Each \<open>print(json.dumps(v))\<close> adds the JSON value \<open>v\<close> to the standard output.\<close>

datatype json = JString string | JArray "json list" | JObject "(string \<times> json) list"

datatype ending = Returned | Exit int | Propagated exn

record outcome =
  stdout :: "json list"
  ending :: ending
  clients :: "(string \<times> string) list"

fun wrapper_assistant_block ::
  "string \<times> string list \<times> json list \<Rightarrow> block \<Rightarrow> string \<times> string list \<times> json list" where
  "wrapper_assistant_block (response_text, tool_uses, out) (TextBlock (Some text)) =
     (response_text @ text, tool_uses,
      out @ [JObject [(''type'', JString ''text''), (''content'', JString text)]])"
| "wrapper_assistant_block (response_text, tool_uses, out) (ToolUseBlock name) =
     (let tool_name = (case name of Some n \<Rightarrow> n | None \<Rightarrow> ''unknown'')
      in (response_text, tool_uses @ [tool_name],
          out @ [JObject [(''type'', JString ''tool''), (''name'', JString tool_name)]]))"
| "wrapper_assistant_block acc _ = acc"

fun wrapper_user_block ::
  "string \<times> string list \<times> json list \<Rightarrow> block \<Rightarrow> string \<times> string list \<times> json list" where
  "wrapper_user_block (response_text, tool_uses, out) (ToolResultBlock is_error content) =
     (if is_error
      then (response_text, tool_uses,
            out @ [JObject [(''type'', JString ''tool_error''),
                            (''content'', JString (take 500 (case content of Some c \<Rightarrow> c | None \<Rightarrow> [])))]])
      else (response_text, tool_uses, out))"
| "wrapper_user_block acc _ = acc"

fun wrapper_collect ::
  "string \<times> string list \<times> json list \<Rightarrow> message \<Rightarrow> string \<times> string list \<times> json list" where
  "wrapper_collect acc (AssistantMessage (Some content)) = foldl wrapper_assistant_block acc content"
| "wrapper_collect acc (UserMessage (Some content)) = foldl wrapper_user_block acc content"
| "wrapper_collect acc _ = acc"

text \<open>The \<open>async with client:\<close> statement of \<open>send_message\<close>.\<close>

definition wrapper_session ::
  "client \<Rightarrow> string \<Rightarrow> json list \<times> (exn + string \<times> string list)" where
  "wrapper_session client message =
     (case aenter client of
        Some e \<Rightarrow> ([], Inl e)
      | None \<Rightarrow>
          let (out, r) =
                (case query client message of
                   Some e \<Rightarrow> ([], Inl e)
                 | None \<Rightarrow>
                     let (msgs, raised) = receive_response client message;
                         (response_text, tool_uses, out) = foldl wrapper_collect ([], [], []) msgs
                     in case raised of
                          Some e \<Rightarrow> (out, Inl e)
                        | None \<Rightarrow> (out, Inr (response_text, tool_uses)))
          in case aexit client of
               Some e \<Rightarrow> (out, Inl e)
             | None \<Rightarrow> (out, r))"

definition send_message :: "runtime \<Rightarrow> string \<Rightarrow> string option \<Rightarrow> outcome" where
  "send_message create_client message working_dir =
     (let working_dir = (case working_dir of None \<Rightarrow> LIFEOS_ROOT | Some d \<Rightarrow> d);
          made = [(working_dir, ''claude-sonnet-4-5'')];
          (out, r) = (case create_client working_dir ''claude-sonnet-4-5'' of
                        Inl e \<Rightarrow> ([], Inl e)
                      | Inr client \<Rightarrow> wrapper_session client message)
      in case r of
           Inr (response_text, tool_uses) \<Rightarrow>
             \<lparr>stdout = out @ [JObject [(''type'', JString ''complete''),
                                       (''response'', JString response_text),
                                       (''tools_used'', JArray (map JString tool_uses))]],
              ending = Returned, clients = made\<rparr>
         | Inl e \<Rightarrow>
             if is_Exception e
             then \<lparr>stdout = out @ [JObject [(''type'', JString ''error''),
                                            (''error'', JString (str_exn e))]],
                   ending = Exit 1, clients = made\<rparr>
             else \<lparr>stdout = out, ending = Propagated e, clients = made\<rparr>)"

text \<open>
  \<open>main\<close> of the wrapper; \<open>argv\<close> is \<open>sys.argv\<close>. The working directory reaches
  \<open>create_client\<close> as the string given (\<open>Path\<close> would drop a trailing slash).
\<close>

definition main :: "runtime \<Rightarrow> string list \<Rightarrow> outcome" where
  "main create_client argv =
     (if length argv < 2
      then \<lparr>stdout = [JObject [(''error'', JString ''No message provided'')]],
            ending = Exit 1, clients = []\<rparr>
      else
        let message = argv ! 1;
            working_dir = (if length argv > 2 then Some (argv ! 2) else None)
        in send_message create_client message working_dir)"

section \<open>Response events\<close>

text \<open>
  The specification speaks of a sequence of response events: text fragments, tool
  invocations and tool results. An event is one block of the SDK, carried by the message
  class in which the program looks for it; \<open>aggregated_text\<close> and \<open>tool_names\<close> are the
  specification's text and list of tool names of a sequence.
\<close>

datatype response_event = TextFragment string | ToolInvocation string | ToolResult bool string

fun message_of_event :: "response_event \<Rightarrow> message" where
  "message_of_event (TextFragment content) = AssistantMessage (Some [TextBlock (Some content)])"
| "message_of_event (ToolInvocation name) = AssistantMessage (Some [ToolUseBlock (Some name)])"
| "message_of_event (ToolResult is_error content) =
     UserMessage (Some [ToolResultBlock is_error (Some content)])"

fun text_of_event :: "response_event \<Rightarrow> string" where
  "text_of_event (TextFragment content) = content"
| "text_of_event _ = []"


definition aggregated_text :: "response_event list \<Rightarrow> string" where
  "aggregated_text events = concat (map text_of_event events)"


text \<open>A session that raises nothing and yields the given events.\<close>

definition streaming_client :: "response_event list \<Rightarrow> client" where
  "streaming_client events =
     \<lparr>aenter = None, query = (\<lambda>prompt. None),
      receive_response = (\<lambda>prompt. (map message_of_event events, None)), aexit = None\<rparr>"

section \<open>Observations and example environments\<close>

text \<open>
  The definitions of this section are not code of the repository. They name what the
  properties below speak about, and give concrete environments on which the properties
  are evaluated.
\<close>

text \<open>What the \<open>i\<close>-th iteration of a run returns, and the log entry written for it.\<close>

definition iteration_outcome :: "world \<Rightarrow> string \<Rightarrow> string \<Rightarrow> int \<Rightarrow> exn + string \<times> string" where
  "iteration_outcome w agent_type model i = snd (run_agent_iteration (runtime_at w i) agent_type i model)"

definition logged_entry :: "world \<Rightarrow> string \<Rightarrow> string \<Rightarrow> int \<Rightarrow> string" where
  "logged_entry w agent_type model i =
     (case iteration_outcome w agent_type model i of
        Inr (status, response) \<Rightarrow> log_entry i (isoformat_now w i) response
      | Inl e \<Rightarrow> [])"

text \<open>
  The exception that leaves the \<open>async with\<close> statement of a session, and the text
  collected from a list of messages.
\<close>

definition leaving :: "client \<Rightarrow> string \<Rightarrow> exn option" where
  "leaving c prompt =
     (case aenter c of
        Some e \<Rightarrow> Some e
      | None \<Rightarrow>
          (case aexit c of
             Some e \<Rightarrow> Some e
           | None \<Rightarrow>
               (case query c prompt of
                  Some e \<Rightarrow> Some e
                | None \<Rightarrow> snd (receive_response c prompt))))"

definition collected_text :: "message list \<Rightarrow> string" where
  "collected_text msgs = fst (foldl collect ([], []) msgs)"

text \<open>The event kind of a record of the wrapper, and the records it prints for one event.\<close>

fun kind_of :: "json \<Rightarrow> string option" where
  "kind_of (JObject members) =
     (case map_of members ''type'' of Some (JString k) \<Rightarrow> Some k | _ \<Rightarrow> None)"
| "kind_of _ = None"




text \<open>Environments in which every session behaves in the same way.\<close>

definition constant_world :: "client \<Rightarrow> world" where
  "constant_world c =
     \<lparr>runtime_at = (\<lambda>i working_dir model. Inr c),
      isoformat_now = (\<lambda>i. ''2025-01-01T00:00:00''),
      start_stamp = ''20250101-000000''\<rparr>"

definition steady_runtime :: "response_event list \<Rightarrow> runtime" where
  "steady_runtime events = (\<lambda>working_dir model. Inr (streaming_client events))"

definition steady_world :: "response_event list \<Rightarrow> world" where
  "steady_world events = constant_world (streaming_client events)"

definition failing_client :: "exn \<Rightarrow> client" where
  \<comment> \<open>\<open>query\<close> raises\<close>
  "failing_client e =
     \<lparr>aenter = None, query = (\<lambda>prompt. Some e),
      receive_response = (\<lambda>prompt. ([], None)), aexit = None\<rparr>"

text \<open>
  An environment whose first session delivers a text and whose later sessions fail on
  \<open>query\<close>.
\<close>

definition mixed_world :: world where
  "mixed_world =
     \<lparr>runtime_at =
        (\<lambda>i working_dir model.
           if i = 1 then Inr (streaming_client [TextFragment ''schema created''])
           else Inr (failing_client (Exception ''connection lost''))),
      isoformat_now = (\<lambda>i. if i = 1 then ''2025-01-01T00:00:00'' else ''2025-01-01T00:05:07''),
      start_stamp = ''20250101-000000''\<rparr>"

definition interrupted_client :: "exn \<Rightarrow> client" where
  \<comment> \<open>the iteration over the response raises after one text block\<close>
  "interrupted_client e =
     \<lparr>aenter = None, query = (\<lambda>prompt. None),
      receive_response = (\<lambda>prompt. ([AssistantMessage (Some [TextBlock (Some ''working'')])], Some e)),
      aexit = None\<rparr>"

section \<open>Lemmas about \<open>replace\<close> and substrings\<close>

lemma replace_clean_prefix:
  "old \<noteq> [] \<Longrightarrow> hd old \<notin> set A \<Longrightarrow> replace (A @ r) old new = A @ replace r old new"
proof (induction A)
  case Nil
  then show ?case by simp
next
  case (Cons a A)
  then have "\<not> prefix old ((a # A) @ r)"
    by (cases old) auto
  with Cons show ?case by simp
qed

lemma replace_clean:
  "old \<noteq> [] \<Longrightarrow> hd old \<notin> set s \<Longrightarrow> replace s old new = s"
  using replace_clean_prefix [of old s "[]" new] by simp

lemma prefix_replaceD:
  "old \<noteq> [] \<Longrightarrow> new \<noteq> [] \<Longrightarrow> hd new \<notin> set t \<Longrightarrow> prefix t (replace s old new) \<Longrightarrow> prefix t s"
proof (induction s old new arbitrary: t rule: replace.induct)
  case (1 old new)
  then show ?case by simp
next
  case (2 c cs old new)
  show ?case
  proof (cases "prefix old (c # cs)")
    case True
    with 2 have "prefix t (new @ replace (drop (length old) (c # cs)) old new)" by simp
    with 2(4,5) have "t = []"
      by (cases t; cases new) auto
    then show ?thesis by simp
  next
    case False
    with 2 have p: "prefix t (c # replace cs old new)" by simp
    show ?thesis
    proof (cases t)
      case Nil
      then show ?thesis by simp
    next
      case (Cons a t')
      with p have "a = c" "prefix t' (replace cs old new)" by auto
      moreover from Cons 2(5) have "hd new \<notin> set t'" by simp
      ultimately have "prefix t' cs" using "2.IH"(2) "2.prems"(1,2) False by blast
      with Cons \<open>a = c\<close> show ?thesis by simp
    qed
  qed
qed

lemma sublist_skip_clean:
  "t \<noteq> [] \<Longrightarrow> hd t \<notin> set A \<Longrightarrow> sublist t (A @ B) \<Longrightarrow> sublist t B"
proof (induction A)
  case Nil
  then show ?case by simp
next
  case (Cons a A)
  from Cons.prems have "\<not> prefix t ((a # A) @ B)" by (cases t) auto
  with Cons show ?case by (auto simp: sublist_Cons_right)
qed

lemma sublist_replaceD:
  "old \<noteq> [] \<Longrightarrow> new \<noteq> [] \<Longrightarrow> t \<noteq> [] \<Longrightarrow> hd new \<notin> set t \<Longrightarrow> hd t \<notin> set new \<Longrightarrow>
   sublist t (replace s old new) \<Longrightarrow> sublist t s"
proof (induction s old new rule: replace.induct)
  case (1 old new)
  then show ?case by simp
next
  case (2 c cs old new)
  show ?case
  proof (cases "prefix old (c # cs)")
    case True
    with 2 have "sublist t (new @ replace (drop (length old) (c # cs)) old new)" by simp
    with 2 have "sublist t (replace (drop (length old) (c # cs)) old new)"
      using sublist_skip_clean by blast
    with 2 True have "sublist t (drop (length old) (c # cs))" by blast
    moreover have "sublist (drop (length old) (c # cs)) (c # cs)"
      by (rule sublist_drop)
    ultimately show ?thesis by (rule sublist_order.order_trans)
  next
    case False
    with 2 have p: "sublist t (c # replace cs old new)" by simp
    then consider "prefix t (c # replace cs old new)" | "sublist t (replace cs old new)"
      by (auto simp: sublist_Cons_right)
    then show ?thesis
    proof cases
      case 1
      with False 2(3) have "prefix t (replace (c # cs) old new)" by simp
      then have "prefix t (c # cs)" using prefix_replaceD 2 by blast
      then show ?thesis by (simp add: sublist_Cons_right)
    next
      case 2
      with "2.IH"(2) False "2.prems" have "sublist t cs" by blast
      then show ?thesis by (simp add: sublist_Cons_right)
    qed
  qed
qed

lemma not_sublist_replace:
  "old \<noteq> [] \<Longrightarrow> new \<noteq> [] \<Longrightarrow> hd new \<notin> set old \<Longrightarrow> hd old \<notin> set new \<Longrightarrow>
   \<not> sublist old (replace s old new)"
proof (induction s old new rule: replace.induct)
  case (1 old new)
  then show ?case by simp
next
  case (2 c cs old new)
  show ?case
  proof (cases "prefix old (c # cs)")
    case True
    show ?thesis
    proof
      assume "sublist old (replace (c # cs) old new)"
      with True 2 have "sublist old (new @ replace (drop (length old) (c # cs)) old new)" by simp
      with 2 have "sublist old (replace (drop (length old) (c # cs)) old new)"
        using sublist_skip_clean by blast
      with 2 True show False by blast
    qed
  next
    case False
    show ?thesis
    proof
      assume a: "sublist old (replace (c # cs) old new)"
      with False 2(3) have "sublist old (c # replace cs old new)" by simp
      then consider "prefix old (c # replace cs old new)" | "sublist old (replace cs old new)"
        by (auto simp: sublist_Cons_right)
      then show False
      proof cases
        case 1
        with False 2(3) have "prefix old (replace (c # cs) old new)" by simp
        then have "prefix old (c # cs)" using prefix_replaceD 2 by blast
        with False show False by simp
      next
        case 2
        with "2.IH"(2) False "2.prems" show False by blast
      qed
    qed
  qed
qed

lemma replace_split:
  "old \<noteq> [] \<Longrightarrow> h \<notin> set old \<Longrightarrow>
   replace (X @ h # R) old new = replace X old new @ replace (h # R) old new"
proof (induction X old new rule: replace.induct)
  case (1 old new)
  then show ?case by simp
next
  case (2 c cs old new)
  have iff: "prefix old ((c # cs) @ h # R) \<longleftrightarrow> prefix old (c # cs)"
  proof
    assume p: "prefix old ((c # cs) @ h # R)"
    show "prefix old (c # cs)"
    proof (rule ccontr)
      assume n: "\<not> prefix old (c # cs)"
      from p have "prefix old (c # cs) \<or> (\<exists>us. old = (c # cs) @ us \<and> prefix us (h # R))"
        by (simp only: prefix_append)
      with n obtain us where "old = (c # cs) @ us" "prefix us (h # R)" by blast
      with n have "us \<noteq> []" by auto
      with \<open>prefix us (h # R)\<close> have "h \<in> set us" by (cases us) auto
      with \<open>old = (c # cs) @ us\<close> 2(4) show False by simp
    qed
  next
    assume "prefix old (c # cs)"
    then show "prefix old ((c # cs) @ h # R)" by (rule prefix_prefix)
  qed
  show ?case
  proof (cases "prefix old (c # cs)")
    case True
    then have len: "length old \<le> length (c # cs)" by (rule prefix_length_le)
    have "drop (length old) ((c # cs) @ h # R) =
          drop (length old) (c # cs) @ drop (length old - length (c # cs)) (h # R)"
      by (rule drop_append)
    with len have d: "drop (length old) ((c # cs) @ h # R) = drop (length old) (c # cs) @ h # R"
      by simp
    have "replace ((c # cs) @ h # R) old new = new @ replace (drop (length old) ((c # cs) @ h # R)) old new"
      using True iff 2(3) by simp
    also have "\<dots> = new @ replace (drop (length old) (c # cs)) old new @ replace (h # R) old new"
      using "2.IH"(1) True "2.prems" d by simp
    also have "\<dots> = replace (c # cs) old new @ replace (h # R) old new"
      using True 2(3) by simp
    finally show ?thesis .
  next
    case False
    have "replace ((c # cs) @ h # R) old new = c # replace (cs @ h # R) old new"
      using False iff 2(3) by simp
    also have "\<dots> = c # replace cs old new @ replace (h # R) old new"
      using "2.IH"(2) False "2.prems" by simp
    also have "\<dots> = replace (c # cs) old new @ replace (h # R) old new"
      using False 2(3) by simp
    finally show ?thesis .
  qed
qed

lemma sublist_append_sep:
  "B \<noteq> [] \<Longrightarrow> hd B \<notin> set t \<Longrightarrow> sublist t (A @ B) \<Longrightarrow> sublist t A \<or> sublist t B"
proof -
  assume B: "B \<noteq> []" and h: "hd B \<notin> set t" and s: "sublist t (A @ B)"
  from s consider "sublist t A" | "sublist t B"
    | xs1 xs2 where "t = xs1 @ xs2" "suffix xs1 A" "prefix xs2 B"
    by (auto simp: sublist_append)
  then show ?thesis
  proof cases
    case 3
    show ?thesis
    proof (cases xs2)
      case Nil
      with 3 have "suffix t A" by simp
      then show ?thesis by (simp add: suffix_imp_sublist)
    next
      case (Cons x xs)
      with 3(3) B have "x = hd B" by (cases B) auto
      with Cons 3(1) h show ?thesis by simp
    qed
  qed auto
qed

lemma digit_char_not_brace: "d < 10 \<Longrightarrow> digit_char d \<noteq> CHR ''{''"
proof
  assume "d < 10" and e: "digit_char d = CHR ''{''"
  then have "d < length ''0123456789''" by simp
  then have "''0123456789'' ! d \<in> set ''0123456789''"
    by (rule nth_mem)
  with e have "CHR ''{'' \<in> set ''0123456789''" by (simp only: digit_char_def)
  then show False by simp
qed

lemma digits_no_brace: "CHR ''{'' \<notin> set (digits n)"
proof (induction n rule: digits.induct)
  case (1 n)
  show ?case
  proof (cases "n < 10")
    case True
    have "digits n = [digit_char n]" using True by (subst digits.simps) simp
    then show ?thesis using digit_char_not_brace [OF True] by simp
  next
    case False
    have m: "n mod 10 < 10" by simp
    have "digits n = digits (n div 10) @ [digit_char (n mod 10)]"
      using False by (subst digits.simps) simp
    then show ?thesis using 1 [OF False] digit_char_not_brace [OF m]
      by simp
  qed
qed

lemma upper_char_not_brace: "c \<noteq> CHR ''{'' \<Longrightarrow> upper_char c \<noteq> CHR ''{''"
proof (cases "map_of (zip ''abcdefghijklmnopqrstuvwxyz'' ''ABCDEFGHIJKLMNOPQRSTUVWXYZ'') c")
  case None
  assume "c \<noteq> CHR ''{''"
  moreover from None have "upper_char c = c" by (simp only: upper_char_def option.case)
  ultimately show ?thesis by simp
next
  case (Some u)
  then have "(c, u) \<in> set (zip ''abcdefghijklmnopqrstuvwxyz'' ''ABCDEFGHIJKLMNOPQRSTUVWXYZ'')"
    by (rule map_of_SomeD)
  then have "u \<in> set ''ABCDEFGHIJKLMNOPQRSTUVWXYZ''" by (rule set_zip_rightD)
  then have "u \<noteq> CHR ''{''" by auto
  moreover from Some have "upper_char c = u" by (simp only: upper_char_def option.case)
  ultimately show ?thesis by simp
qed

lemma str_int_no_brace: "CHR ''{'' \<notin> set (str_int i)"
  by (simp add: str_int_def digits_no_brace)

lemma str_upper_no_brace: "CHR ''{'' \<notin> set s \<Longrightarrow> CHR ''{'' \<notin> set (str_upper s)"
proof
  assume n: "CHR ''{'' \<notin> set s" and "CHR ''{'' \<in> set (str_upper s)"
  then obtain c where c: "c \<in> set s" "upper_char c = CHR ''{''"
    unfolding str_upper_def by (metis (no_types) imageE list.set_map)
  from c(1) n have "c \<noteq> CHR ''{''" by blast
  with c(2) show False using upper_char_not_brace by blast
qed

lemma sublist_skip_line:
  "t \<noteq> [] \<Longrightarrow> hd t \<notin> set A \<Longrightarrow> sublist t (A @ B) \<longleftrightarrow> sublist t B"
  using sublist_skip_clean [of t A B] by (auto simp: sublist_append)

lemma sublist_sep_line:
  "A \<noteq> [] \<Longrightarrow> last A \<notin> set t \<Longrightarrow> sublist t (A @ B) \<longleftrightarrow> sublist t A \<or> sublist t B"
proof
  assume A: "A \<noteq> []" and l: "last A \<notin> set t" and s: "sublist t (A @ B)"
  from s consider "sublist t A" | "sublist t B"
    | xs1 xs2 where "t = xs1 @ xs2" "suffix xs1 A" "prefix xs2 B"
    by (auto simp: sublist_append)
  then show "sublist t A \<or> sublist t B"
  proof cases
    case 3
    show ?thesis
    proof (cases "xs1 = []")
      case True
      with 3 have "prefix t B" by simp
      then show ?thesis by (simp add: prefix_imp_sublist)
    next
      case False
      with 3(2) A have "last xs1 = last A" by (auto simp: suffix_def)
      with False 3(1) l show ?thesis by (metis last_in_set Un_iff set_append)
    qed
  qed auto
next
  assume "sublist t A \<or> sublist t B"
  then show "sublist t (A @ B)" by (auto simp: sublist_append)
qed

text \<open>
  The rules that decide, line by line, that a token does not occur in a template: a line
  without the first character of the token is skipped, and no occurrence runs over the end
  of a line, since no token contains a line feed.
\<close>

lemmas tok_eval =
  sublist_skip_line sublist_sep_line sublist_Cons_right sublist_Nil_right
  prefix_Cons prefix_Nil prefix_code
  list.set insert_iff empty_iff list.sel last.simps char.inject list.simps simp_thms
  if_True if_False not_Cons_self2

section \<open>Properties of \<open>get_agent_prompt\<close>\<close>

lemma hd_replace:
  "s \<noteq> [] \<Longrightarrow> old \<noteq> [] \<Longrightarrow> hd s \<noteq> hd old \<Longrightarrow>
   replace s old new \<noteq> [] \<and> hd (replace s old new) = hd s"
  by (cases s; cases old) auto

lemma replace_split_hd:
  "old \<noteq> [] \<Longrightarrow> B \<noteq> [] \<Longrightarrow> hd B \<notin> set old \<Longrightarrow>
   replace (X @ B) old new = replace X old new @ replace B old new"
  using replace_split [of old "hd B" X "tl B" new] by simp

lemma paths_nonempty:
  "LIFEOS_ROOT \<noteq> []" "ECHO_MVP_DIR \<noteq> []" "MASTRA_BACKEND \<noteq> []" "EXPO_APP \<noteq> []"
  by (simp_all add: LIFEOS_ROOT_def ECHO_MVP_DIR_def MASTRA_BACKEND_def EXPO_APP_def path_join_def)

lemma paths_hd:
  "hd LIFEOS_ROOT = CHR ''/''" "hd ECHO_MVP_DIR = CHR ''/''"
  "hd MASTRA_BACKEND = CHR ''/''" "hd EXPO_APP = CHR ''/''"
  by (simp_all add: LIFEOS_ROOT_def ECHO_MVP_DIR_def MASTRA_BACKEND_def EXPO_APP_def path_join_def)

lemma paths_no_brace:
  "CHR ''{'' \<notin> set LIFEOS_ROOT" "CHR ''{'' \<notin> set ECHO_MVP_DIR"
  "CHR ''{'' \<notin> set MASTRA_BACKEND" "CHR ''{'' \<notin> set EXPO_APP"
  by (simp_all add: LIFEOS_ROOT_def ECHO_MVP_DIR_def MASTRA_BACKEND_def EXPO_APP_def path_join_def)

text \<open>A placeholder starts with a brace and has no slash; a path starts with a slash and has no brace.\<close>

lemma replace_removes:
  assumes "old \<noteq> []" "hd old = CHR ''{''" "CHR ''/'' \<notin> set old"
      and "new \<noteq> []" "hd new = CHR ''/''" "CHR ''{'' \<notin> set new"
  shows "\<not> sublist old (replace s old new)"
  using assms by (intro not_sublist_replace) simp_all

lemma replace_keeps_absent:
  assumes "t \<noteq> []" "hd t = CHR ''{''" "CHR ''/'' \<notin> set t"
      and "old \<noteq> []" "new \<noteq> []" "hd new = CHR ''/''" "CHR ''{'' \<notin> set new"
      and "\<not> sublist t s"
  shows "\<not> sublist t (replace s old new)"
proof
  assume "sublist t (replace s old new)"
  with assms have "sublist t s" by (intro sublist_replaceD [of old new t s]) simp_all
  with assms show False by simp
qed

lemma orchestrator_lookup: "agent_prompts ''orchestrator'' = Some orchestrator_prompt"
  by (simp add: agent_prompts_def)

lemma footer_template_hd: "footer_template \<noteq> [] \<and> hd footer_template = CHR 0x0A"
  unfolding footer_template_def by (simp only: append_Cons list.sel list.simps simp_thms)

lemma footer_hd: "footer \<noteq> [] \<and> hd footer = CHR 0x0A"
proof -
  have a: "\<And>s old new. s \<noteq> [] \<and> hd s = CHR 0x0A \<Longrightarrow> old \<noteq> [] \<Longrightarrow> hd old = CHR ''{'' \<Longrightarrow>
            replace s old new \<noteq> [] \<and> hd (replace s old new) = CHR 0x0A"
    using hd_replace by force
  show ?thesis unfolding footer_def
    by (intro a footer_template_hd) simp_all
qed

lemma footer_resolved:
  "\<not> sublist ''{root}'' footer" "\<not> sublist ''{echo}'' footer"
  "\<not> sublist ''{mastra}'' footer" "\<not> sublist ''{expo}'' footer"
  unfolding footer_def
  by (intro replace_keeps_absent replace_removes paths_nonempty paths_hd paths_no_brace; simp)+

lemma set_literal_rules:
  "CHR ''{'' \<notin> set (A @ B) \<longleftrightarrow> CHR ''{'' \<notin> set A \<and> CHR ''{'' \<notin> set B"
  by auto

lemmas brace_eval = set_literal_rules list.set insert_iff empty_iff char.inject simp_thms

lemma common_context_no_brace:
  assumes "CHR ''{'' \<notin> set agent_type"
  shows "CHR ''{'' \<notin> set (common_context agent_type i)"
  unfolding common_context_def
  using assms str_upper_no_brace [OF assms] str_int_no_brace [of i] paths_no_brace
  by (simp only: brace_eval)

lemma sublist_in_tail: "sublist x B \<Longrightarrow> sublist x (A @ B)"
  by (simp add: sublist_append)

lemma sublist_at_head: "sublist x (x @ B)"
  by (simp add: sublist_append)

lemma sublist_at_head3: "sublist (a @ b @ c) (a @ b @ c @ B)"
  using sublist_at_head [of "a @ b @ c" B] by simp

lemma common_context_iteration:
  "sublist (''**Iteration:** '' @ str_int i @ ''\<newline>'') (common_context agent_type i)"
  unfolding common_context_def
  by (rule sublist_at_head3 | rule sublist_in_tail)+

lemma get_agent_prompt_unfold:
  "get_agent_prompt agent_type i =
     Inr (replace (replace (common_context agent_type i @
            (case agent_prompts agent_type of Some body \<Rightarrow> body | None \<Rightarrow> orchestrator_prompt))
            ''{mastra}'' MASTRA_BACKEND) ''{expo}'' EXPO_APP @ footer)"
  by (simp add: get_agent_prompt_def orchestrator_lookup Let_def)

lemma prompt_shape:
  assumes "agent_prompts agent_type = Some body" and "CHR ''{'' \<notin> set agent_type"
  shows "get_agent_prompt agent_type i =
           Inr (common_context agent_type i @
                replace (replace body ''{mastra}'' MASTRA_BACKEND) ''{expo}'' EXPO_APP @ footer)"
proof -
  have c: "CHR ''{'' \<notin> set (common_context agent_type i)"
    using assms(2) by (rule common_context_no_brace)
  have "replace (common_context agent_type i @ body) ''{mastra}'' MASTRA_BACKEND =
        common_context agent_type i @ replace body ''{mastra}'' MASTRA_BACKEND"
    using c by (intro replace_clean_prefix) simp_all
  moreover have "replace (common_context agent_type i @ replace body ''{mastra}'' MASTRA_BACKEND)
                   ''{expo}'' EXPO_APP =
        common_context agent_type i @
        replace (replace body ''{mastra}'' MASTRA_BACKEND) ''{expo}'' EXPO_APP"
    using c by (intro replace_clean_prefix) simp_all
  ultimately show ?thesis
    by (simp only: get_agent_prompt_unfold assms(1) option.case append_assoc)
qed

lemma prompt_resolved:
  assumes "agent_prompts agent_type = Some body" and "CHR ''{'' \<notin> set agent_type"
      and "\<not> sublist ''{root}'' body" and "\<not> sublist ''{echo}'' body"
      and "get_agent_prompt agent_type i = Inr p"
  shows "\<not> sublist ''{mastra}'' p \<and> \<not> sublist ''{expo}'' p \<and>
         \<not> sublist ''{root}'' p \<and> \<not> sublist ''{echo}'' p \<and>
         sublist (''**Iteration:** '' @ str_int i @ ''\<newline>'') p"
proof -
  let ?b = "replace (replace body ''{mastra}'' MASTRA_BACKEND) ''{expo}'' EXPO_APP"
  let ?c = "common_context agent_type i"
  from assms(5) have "Inr p = get_agent_prompt agent_type i" by (rule sym)
  also note prompt_shape [OF assms(1,2), of i]
  finally have p: "p = ?c @ ?b @ footer" by (simp only: sum.inject)
  have c: "CHR ''{'' \<notin> set ?c"
    using assms(2) by (rule common_context_no_brace)
  have b: "\<not> sublist ''{mastra}'' ?b" "\<not> sublist ''{expo}'' ?b"
          "\<not> sublist ''{root}'' ?b" "\<not> sublist ''{echo}'' ?b"
  proof -
    have "\<not> sublist ''{mastra}'' (replace body ''{mastra}'' MASTRA_BACKEND)"
      by (rule replace_removes) (simp_all add: paths_nonempty paths_hd paths_no_brace)
    then show "\<not> sublist ''{mastra}'' ?b"
      by (rule replace_keeps_absent [rotated -1]) (simp_all add: paths_nonempty paths_hd paths_no_brace)
    show "\<not> sublist ''{expo}'' ?b"
      by (rule replace_removes) (simp_all add: paths_nonempty paths_hd paths_no_brace)
    from assms(3) have "\<not> sublist ''{root}'' (replace body ''{mastra}'' MASTRA_BACKEND)"
      by (rule replace_keeps_absent [rotated -1]) (simp_all add: paths_nonempty paths_hd paths_no_brace)
    then show "\<not> sublist ''{root}'' ?b"
      by (rule replace_keeps_absent [rotated -1]) (simp_all add: paths_nonempty paths_hd paths_no_brace)
    from assms(4) have "\<not> sublist ''{echo}'' (replace body ''{mastra}'' MASTRA_BACKEND)"
      by (rule replace_keeps_absent [rotated -1]) (simp_all add: paths_nonempty paths_hd paths_no_brace)
    then show "\<not> sublist ''{echo}'' ?b"
      by (rule replace_keeps_absent [rotated -1]) (simp_all add: paths_nonempty paths_hd paths_no_brace)
  qed
  have tail: "\<not> sublist t (?b @ footer)"
    if "\<not> sublist t ?b" "\<not> sublist t footer" "CHR 0x0A \<notin> set t" for t
  proof
    assume a: "sublist t (?b @ footer)"
    from footer_hd that(3) have "footer \<noteq> []" "hd footer \<notin> set t" by simp_all
    from sublist_append_sep [OF this a] that(1,2) show False by blast
  qed
  have whole: "\<not> sublist t p"
    if "\<not> sublist t ?b" "\<not> sublist t footer" "CHR 0x0A \<notin> set t" "t \<noteq> []" "hd t = CHR ''{''" for t
  proof
    assume "sublist t p"
    then have s: "sublist t (?c @ ?b @ footer)" by (simp only: p)
    from c that(5) have "hd t \<notin> set ?c" by simp
    from sublist_skip_clean [OF that(4) this s] tail [OF that(1-3)] show False by (rule notE [rotated])
  qed
  have "sublist (''**Iteration:** '' @ str_int i @ ''\<newline>'') p"
  proof -
    have "sublist ?c p" unfolding p by (rule sublist_append_rightI)
    with common_context_iteration [of i agent_type] show ?thesis
      by (rule sublist_order.order_trans)
  qed
  moreover have "\<not> sublist ''{mastra}'' p" by (rule whole [OF b(1) footer_resolved(3)]) simp_all
  moreover have "\<not> sublist ''{expo}'' p" by (rule whole [OF b(2) footer_resolved(4)]) simp_all
  moreover have "\<not> sublist ''{root}'' p" by (rule whole [OF b(3) footer_resolved(1)]) simp_all
  moreover have "\<not> sublist ''{echo}'' p" by (rule whole [OF b(4) footer_resolved(2)]) simp_all
  ultimately show ?thesis by (intro conjI)
qed

lemma sublist_weaken: "sublist (a @ b @ c) p \<Longrightarrow> sublist b p"
  by (meson sublist_appendI sublist_order.order_trans)

lemma agent_prompts_lookup:
  "agent_prompts ''database'' = Some database_prompt"
  "agent_prompts ''email'' = Some email_prompt"
  "agent_prompts ''calendar'' = Some calendar_prompt"
  "agent_prompts ''memory'' = Some memory_prompt"
  "agent_prompts ''frontend'' = Some frontend_prompt"
  "agent_prompts ''backend'' = Some backend_prompt"
  by (simp_all add: agent_prompts_def)

lemma dom_agent_promptsD:
  assumes "agent_type \<in> dom agent_prompts"
  shows "agent_type = ''orchestrator'' \<or> agent_type = ''frontend'' \<or> agent_type = ''backend'' \<or>
         agent_type = ''frontend'' \<or> agent_type = ''memory'' \<or> agent_type = ''calendar'' \<or>
         agent_type = ''email'' \<or> agent_type = ''database''"
  using assms unfolding agent_prompts_def
  by (simp only: dom_fun_upd dom_empty option.simps if_False insert_iff empty_iff simp_thms)

lemma bodies_no_root:
  "\<not> sublist ''{root}'' database_prompt" "\<not> sublist ''{root}'' email_prompt"
  "\<not> sublist ''{root}'' calendar_prompt" "\<not> sublist ''{root}'' memory_prompt"
  "\<not> sublist ''{root}'' frontend_prompt" "\<not> sublist ''{root}'' backend_prompt"
  "\<not> sublist ''{root}'' orchestrator_prompt"
  unfolding database_prompt_def email_prompt_def calendar_prompt_def memory_prompt_def
    frontend_prompt_def backend_prompt_def orchestrator_prompt_def
  by (simp_all only: tok_eval)

lemma bodies_no_echo:
  "\<not> sublist ''{echo}'' database_prompt" "\<not> sublist ''{echo}'' email_prompt"
  "\<not> sublist ''{echo}'' calendar_prompt" "\<not> sublist ''{echo}'' memory_prompt"
  "\<not> sublist ''{echo}'' frontend_prompt" "\<not> sublist ''{echo}'' backend_prompt"
  "\<not> sublist ''{echo}'' orchestrator_prompt"
  unfolding database_prompt_def email_prompt_def calendar_prompt_def memory_prompt_def
    frontend_prompt_def backend_prompt_def orchestrator_prompt_def
  by (simp_all only: tok_eval)

lemma orchestrator_prompt_hd: "orchestrator_prompt \<noteq> [] \<and> hd orchestrator_prompt = CHR 0x0A"
  unfolding orchestrator_prompt_def by (simp only: append_Cons list.sel list.simps simp_thms)

lemma orchestrator_prompt_no_brace: "CHR ''{'' \<notin> set orchestrator_prompt"
  unfolding orchestrator_prompt_def by (simp only: brace_eval)

lemma recognized_role:
  assumes "agent_prompts agent_type = Some body" and "CHR ''{'' \<notin> set agent_type"
      and "\<not> sublist ''{root}'' body" and "\<not> sublist ''{echo}'' body"
  shows "\<exists>p. get_agent_prompt agent_type i = Inr p \<and>
             \<not> sublist ''{mastra}'' p \<and> \<not> sublist ''{expo}'' p \<and>
             \<not> sublist ''{root}'' p \<and> \<not> sublist ''{echo}'' p \<and>
             sublist (''**Iteration:** '' @ str_int i @ ''\<newline>'') p \<and> sublist (str_int i) p"
proof -
  obtain p where p: "get_agent_prompt agent_type i = Inr p"
    using get_agent_prompt_unfold by blast
  note r = prompt_resolved [OF assms p]
  from r have "sublist (''**Iteration:** '' @ str_int i @ ''\<newline>'') p" by (elim conjE)
  then have "sublist (str_int i) p" by (rule sublist_weaken)
  with p r show ?thesis by blast
qed

text \<open>
  C4: for every recognized agent role and every iteration index, \<open>get_agent_prompt\<close>
  returns a prompt that contains none of the placeholder tokens \<open>{mastra}\<close>, \<open>{expo}\<close>,
  \<open>{root}\<close>, \<open>{echo}\<close> and that contains the decimal text of the iteration number (in the
  line \<open>**Iteration:** n\<close> of the header).
\<close>

theorem get_agent_prompt_resolved:
  assumes "agent_type \<in> dom agent_prompts"
  shows "\<exists>p. get_agent_prompt agent_type i = Inr p \<and>
             \<not> sublist ''{mastra}'' p \<and> \<not> sublist ''{expo}'' p \<and>
             \<not> sublist ''{root}'' p \<and> \<not> sublist ''{echo}'' p \<and>
             sublist (''**Iteration:** '' @ str_int i @ ''\<newline>'') p \<and> sublist (str_int i) p"
  using dom_agent_promptsD [OF assms]
proof (elim disjE)
  assume "agent_type = ''orchestrator''"
  moreover have "CHR ''{'' \<notin> set ''orchestrator''" by simp
  note recognized_role [OF orchestrator_lookup this bodies_no_root(7) bodies_no_echo(7), of i]
  ultimately show ?thesis by (simp only:)
next
  assume "agent_type = ''frontend''"
  moreover have "CHR ''{'' \<notin> set ''frontend''" by simp
  note recognized_role [OF agent_prompts_lookup(5) this bodies_no_root(5) bodies_no_echo(5), of i]
  ultimately show ?thesis by (simp only:)
next
  assume "agent_type = ''backend''"
  moreover have "CHR ''{'' \<notin> set ''backend''" by simp
  note recognized_role [OF agent_prompts_lookup(6) this bodies_no_root(6) bodies_no_echo(6), of i]
  ultimately show ?thesis by (simp only:)
next
  assume "agent_type = ''frontend''"
  moreover have "CHR ''{'' \<notin> set ''frontend''" by simp
  note recognized_role [OF agent_prompts_lookup(5) this bodies_no_root(5) bodies_no_echo(5), of i]
  ultimately show ?thesis by (simp only:)
next
  assume "agent_type = ''memory''"
  moreover have "CHR ''{'' \<notin> set ''memory''" by simp
  note recognized_role [OF agent_prompts_lookup(4) this bodies_no_root(4) bodies_no_echo(4), of i]
  ultimately show ?thesis by (simp only:)
next
  assume "agent_type = ''calendar''"
  moreover have "CHR ''{'' \<notin> set ''calendar''" by simp
  note recognized_role [OF agent_prompts_lookup(3) this bodies_no_root(3) bodies_no_echo(3), of i]
  ultimately show ?thesis by (simp only:)
next
  assume "agent_type = ''email''"
  moreover have "CHR ''{'' \<notin> set ''email''" by simp
  note recognized_role [OF agent_prompts_lookup(2) this bodies_no_root(2) bodies_no_echo(2), of i]
  ultimately show ?thesis by (simp only:)
next
  assume "agent_type = ''database''"
  moreover have "CHR ''{'' \<notin> set ''database''" by simp
  note recognized_role [OF agent_prompts_lookup(1) this bodies_no_root(1) bodies_no_echo(1), of i]
  ultimately show ?thesis by (simp only:)
qed

theorem get_agent_prompt_resolved_witness:
  "''email'' \<in> dom agent_prompts \<and>
   (\<exists>p. get_agent_prompt ''email'' 3 = Inr p \<and>
        \<not> sublist ''{mastra}'' p \<and> \<not> sublist ''{expo}'' p \<and>
        \<not> sublist ''{root}'' p \<and> \<not> sublist ''{echo}'' p \<and>
        sublist (''**Iteration:** '' @ str_int 3 @ ''\<newline>'') p \<and> sublist (str_int 3) p)"
proof -
  have h: "''email'' \<in> dom agent_prompts" by (simp add: agent_prompts_def)
  from h get_agent_prompt_resolved [OF h, of 3] show ?thesis by (rule conjI)
qed

text \<open>
  C5: for a role string that is not a key of \<open>agent_prompts\<close>, \<open>get_agent_prompt\<close>
  raises nothing and returns the header for the supplied role name (after the substitution
  of \<open>{mastra}\<close> and \<open>{expo}\<close>), followed by the orchestrator body and the footer; the
  prompt of the role \<open>orchestrator\<close> has the same body and footer, so the two differ in
  the header only.
\<close>

theorem unknown_role_falls_back:
  assumes "agent_type \<notin> dom agent_prompts"
  shows "get_agent_prompt agent_type i =
           Inr (replace (replace (common_context agent_type i) ''{mastra}'' MASTRA_BACKEND)
                  ''{expo}'' EXPO_APP @ orchestrator_prompt @ footer) \<and>
         get_agent_prompt ''orchestrator'' i =
           Inr (common_context ''orchestrator'' i @ orchestrator_prompt @ footer)"
proof
  let ?c = "common_context agent_type i"
  from assms have n: "agent_prompts agent_type = None" by blast
  have o: "replace orchestrator_prompt old new = orchestrator_prompt"
    if "old \<noteq> []" "hd old = CHR ''{''" for old new
    using that orchestrator_prompt_no_brace by (intro replace_clean) simp_all
  have "replace (?c @ orchestrator_prompt) ''{mastra}'' MASTRA_BACKEND =
        replace ?c ''{mastra}'' MASTRA_BACKEND @ replace orchestrator_prompt ''{mastra}'' MASTRA_BACKEND"
    using orchestrator_prompt_hd by (intro replace_split_hd) simp_all
  then have 1: "replace (?c @ orchestrator_prompt) ''{mastra}'' MASTRA_BACKEND =
        replace ?c ''{mastra}'' MASTRA_BACKEND @ orchestrator_prompt"
    by (simp add: o)
  have "replace (replace ?c ''{mastra}'' MASTRA_BACKEND @ orchestrator_prompt) ''{expo}'' EXPO_APP =
        replace (replace ?c ''{mastra}'' MASTRA_BACKEND) ''{expo}'' EXPO_APP @
        replace orchestrator_prompt ''{expo}'' EXPO_APP"
    using orchestrator_prompt_hd by (intro replace_split_hd) simp_all
  then have 2: "replace (replace ?c ''{mastra}'' MASTRA_BACKEND @ orchestrator_prompt) ''{expo}'' EXPO_APP =
        replace (replace ?c ''{mastra}'' MASTRA_BACKEND) ''{expo}'' EXPO_APP @ orchestrator_prompt"
    by (simp add: o)
  show "get_agent_prompt agent_type i =
           Inr (replace (replace ?c ''{mastra}'' MASTRA_BACKEND) ''{expo}'' EXPO_APP @
                orchestrator_prompt @ footer)"
    by (simp only: get_agent_prompt_unfold n option.case 1 2 append_assoc)
  have "get_agent_prompt ''orchestrator'' i =
           Inr (common_context ''orchestrator'' i @
                replace (replace orchestrator_prompt ''{mastra}'' MASTRA_BACKEND) ''{expo}'' EXPO_APP @ footer)"
    by (rule prompt_shape [OF orchestrator_lookup]) simp
  then show "get_agent_prompt ''orchestrator'' i =
           Inr (common_context ''orchestrator'' i @ orchestrator_prompt @ footer)"
    by (simp add: o)
qed

theorem unknown_role_falls_back_witness:
  "''reviewer'' \<notin> dom agent_prompts \<and>
   get_agent_prompt ''reviewer'' 1 =
     Inr (replace (replace (common_context ''reviewer'' 1) ''{mastra}'' MASTRA_BACKEND)
            ''{expo}'' EXPO_APP @ orchestrator_prompt @ footer) \<and>
   get_agent_prompt ''orchestrator'' 1 =
     Inr (common_context ''orchestrator'' 1 @ orchestrator_prompt @ footer)"
proof -
  have h: "''reviewer'' \<notin> dom agent_prompts" by (simp add: agent_prompts_def)
  from h unknown_role_falls_back [OF h, of 1] show ?thesis by (rule conjI)
qed

section \<open>Properties of \<open>run_agent_iteration\<close>\<close>

lemma fst_foldl_out:
  assumes "\<And>t out out' x. fst (f (t, out) x) = fst (f (t, out') x)"
  shows "fst (foldl f (t, out) xs) = fst (foldl f (t, out') xs)"
proof (induction xs arbitrary: t out out')
  case Nil
  then show ?case by simp
next
  case (Cons x xs)
  obtain t1 o1 where 1: "f (t, out) x = (t1, o1)" by (cases "f (t, out) x")
  obtain t2 o2 where 2: "f (t, out') x = (t2, o2)" by (cases "f (t, out') x")
  from assms [of t out x out'] 1 2 have "t1 = t2" by simp
  with Cons [of t1 o1 o2] 1 2 show ?case by simp
qed

lemma fst_assistant_block: "fst (assistant_block (t, out) b) = fst (assistant_block (t, out') b)"
  by (cases "((t, out), b)" rule: assistant_block.cases) (auto simp: Let_def)

lemma fst_user_block: "fst (user_block (t, out) b) = fst (user_block (t, out') b)"
  by (cases "((t, out), b)" rule: user_block.cases) auto

lemma fst_collect: "fst (collect (t, out) m) = fst (collect (t, out') m)"
proof (cases m)
  case (AssistantMessage content)
  then show ?thesis
    using fst_foldl_out [of assistant_block t out _ out', OF fst_assistant_block]
    by (cases content) simp_all
next
  case (UserMessage content)
  then show ?thesis
    using fst_foldl_out [of user_block t out _ out', OF fst_user_block]
    by (cases content) simp_all
next
  case OtherMessage
  then show ?thesis by simp
qed

lemma fst_foldl_collect:
  "fst (foldl collect ([], out) msgs) = collected_text msgs"
  unfolding collected_text_def
  by (rule fst_foldl_out [of collect, OF fst_collect])

lemma snd_agent_session:
  "snd (agent_session c p out) =
     (case leaving c p of
        Some e \<Rightarrow> Inl e
      | None \<Rightarrow> Inr (''success'', collected_text (fst (receive_response c p))))"
  using fst_foldl_collect [of out "fst (receive_response c p)"]
  by (auto simp: agent_session_def leaving_def split: option.splits prod.splits)

lemma snd_run_agent_iteration:
  assumes "create_client ECHO_MVP_DIR model = Inr c"
      and "get_agent_prompt agent_type i = Inr p"
  shows "snd (run_agent_iteration create_client agent_type i model) =
           (case leaving c p of
              Some e \<Rightarrow> if is_Exception e then Inr (''error'', str_exn e) else Inl e
            | None \<Rightarrow> Inr (''success'', collected_text (fst (receive_response c p))))"
proof -
  let ?out = "[''\<newline>'' @ rule_line CHR ''='' @ ''\<newline>'',
               ''  '' @ str_upper agent_type @ '' AGENT - Iteration '' @ str_int i @ ''\<newline>'',
               rule_line CHR ''='' @ ''\<newline>\<newline>'']"
  obtain out r where a: "agent_session c p ?out = (out, r)"
    by (cases "agent_session c p ?out")
  then have r: "r = snd (agent_session c p ?out)" by simp
  have "snd (run_agent_iteration create_client agent_type i model) =
          (case r of Inr result \<Rightarrow> Inr result
           | Inl e \<Rightarrow> if is_Exception e then Inr (''error'', str_exn e) else Inl e)"
    unfolding run_agent_iteration_def Let_def
    by (simp only: assms sum.case a prod.case) (simp split: sum.splits)
  then show ?thesis
    by (simp only: r snd_agent_session) (simp split: option.splits)
qed

lemma prompt_exists: "\<exists>p. get_agent_prompt agent_type i = Inr p"
  using get_agent_prompt_unfold by blast


lemma collected_text_events:
  "collected_text (map message_of_event events) = aggregated_text events"
proof -
  have "fst (foldl collect (t, out) (map message_of_event events)) = t @ aggregated_text events"
    for t out
  proof (induction events arbitrary: t out)
    case Nil
    then show ?case by (simp add: aggregated_text_def)
  next
    case (Cons ev events)
    then show ?case
      by (cases ev) (simp_all add: aggregated_text_def)
  qed
  from this [of "[]" "[]"] show ?thesis by (simp add: collected_text_def)
qed

lemma leaving_streaming: "leaving (streaming_client events) p = None"
  by (simp add: leaving_def streaming_client_def)

lemma run_agent_iteration_streaming:
  assumes "create_client ECHO_MVP_DIR model = Inr (streaming_client events)"
  shows "snd (run_agent_iteration create_client agent_type i model) =
           Inr (''success'', aggregated_text events)"
proof -
  obtain p where p: "get_agent_prompt agent_type i = Inr p" using prompt_exists by blast
  show ?thesis
    unfolding snd_run_agent_iteration [where create_client = create_client, OF assms p]
    by (simp add: leaving_streaming) (simp add: streaming_client_def collected_text_events)
qed

section \<open>Properties of the loop of \<open>run_continuous_build\<close>\<close>

lemma log_response_fields:
  "iteration (log_response w response s) = iteration s"
  "sessions (log_response w response s) = sessions s"
  "sleeps (log_response w response s) = sleeps s"
  "log_file (log_response w response s) =
     log_file s @ log_entry (iteration s) (isoformat_now w (iteration s)) response"
  by (simp_all add: log_response_def)

lemma handle_status_fields:
  "iteration (handle_status status s) = iteration s"
  "sessions (handle_status status s) = sessions s"
  "log_file (handle_status status s) = log_file s"
  "sleeps (handle_status status s) = sleeps s @ [AUTO_CONTINUE_DELAY]"
  by (simp_all add: handle_status_def)

lemma brief_pause_fields:
  "iteration (brief_pause m s) = iteration s"
  "sessions (brief_pause m s) = sessions s"
  "log_file (brief_pause m s) = log_file s"
  "sleeps (brief_pause m s) =
     sleeps s @ (if (case m of None \<Rightarrow> True | Some k \<Rightarrow> iteration s < k) then [1] else [])"
  by (simp_all add: brief_pause_def)

lemma loop_step_break:
  assumes "max_reached m (iteration s + 1)"
  shows "\<exists>s'. loop_step w a m model s = Break s' \<and> iteration s' = iteration s + 1 \<and>
           sessions s' = sessions s \<and> log_file s' = log_file s \<and> sleeps s' = sleeps s"
  using assms by (simp add: loop_step_def Let_def)

lemma loop_step_continue:
  assumes "\<not> max_reached m (iteration s + 1)"
      and "iteration_outcome w a model (iteration s + 1) = Inr (status, response)"
  shows "\<exists>s'. loop_step w a m model s = Continue s' \<and> iteration s' = iteration s + 1 \<and>
           sessions s' = sessions s @ [iteration s + 1] \<and>
           log_file s' = log_file s @ logged_entry w a model (iteration s + 1) \<and>
           sleeps s' = sleeps s @ AUTO_CONTINUE_DELAY #
             (if (case m of None \<Rightarrow> True | Some k \<Rightarrow> iteration s + 1 < k) then [1] else [])"
proof -
  obtain out where o: "run_agent_iteration (runtime_at w (iteration s + 1)) a (iteration s + 1) model =
      (out, Inr (status, response))"
    using assms(2) unfolding iteration_outcome_def
    by (cases "run_agent_iteration (runtime_at w (iteration s + 1)) a (iteration s + 1) model") simp
  let ?s1 = "s\<lparr>iteration := iteration s + 1, sessions := sessions s @ [iteration s + 1]\<rparr>"
  let ?s2 = "?s1\<lparr>console := console ?s1 @ out\<rparr>"
  have "loop_step w a m model s =
          Continue (brief_pause m (handle_status status (log_response w response ?s2)))"
    using assms(1) by (simp add: loop_step_def Let_def o)
  then show ?thesis
    by (cases m)
       (simp_all add: brief_pause_fields handle_status_fields log_response_fields logged_entry_def
          assms(2))
qed

lemma loop_step_raised:
  assumes "\<not> max_reached m (iteration s + 1)"
      and "iteration_outcome w a model (iteration s + 1) = Inl e"
  shows "\<exists>s'. loop_step w a m model s = Raised e s' \<and> iteration s' = iteration s + 1 \<and>
           sessions s' = sessions s @ [iteration s + 1] \<and>
           log_file s' = log_file s \<and> sleeps s' = sleeps s"
proof -
  obtain out where o: "run_agent_iteration (runtime_at w (iteration s + 1)) a (iteration s + 1) model =
      (out, Inl e)"
    using assms(2) unfolding iteration_outcome_def
    by (cases "run_agent_iteration (runtime_at w (iteration s + 1)) a (iteration s + 1) model") simp
  show ?thesis
    using assms by (simp add: loop_step_def Let_def o)
qed

lemma while_true_bounded:
  assumes "0 < n" and "iteration s \<le> n"
      and "\<forall>i. iteration s < i \<and> i \<le> n \<longrightarrow> (\<exists>r. iteration_outcome w a model i = Inr r)"
  shows "\<exists>s'. while_true w a (Some n) model s = Some (Completed s') \<and>
           iteration s' = n + 1 \<and>
           sessions s' = sessions s @ [iteration s + 1..n] \<and>
           log_file s' = log_file s @ concat (map (logged_entry w a model) [iteration s + 1..n]) \<and>
           sleeps s' = sleeps s @
             concat (map (\<lambda>i. AUTO_CONTINUE_DELAY # (if i < n then [1] else [])) [iteration s + 1..n])"
  using assms(2,3)
proof (induction "nat (n - iteration s)" arbitrary: s)
  case 0
  then have e: "iteration s = n" by simp
  with assms(1) have "max_reached (Some n) (iteration s + 1)" by (simp add: max_reached_def)
  from loop_step_break [OF this, of w a model] obtain s' where
    s': "loop_step w a (Some n) model s = Break s'" "iteration s' = iteration s + 1"
      "sessions s' = sessions s" "log_file s' = log_file s" "sleeps s' = sleeps s"
    by blast
  have "while_true w a (Some n) model s = Some (Completed s')"
    by (subst while_true.simps) (simp add: s'(1))
  with s' e show ?case by simp
next
  case (Suc k)
  then have lt: "iteration s < n" by simp
  then have g: "\<not> max_reached (Some n) (iteration s + 1)" by (simp add: max_reached_def)
  from Suc.prems(2) lt obtain status response where
    r: "iteration_outcome w a model (iteration s + 1) = Inr (status, response)"
    by (metis add.commute less_add_one zless_imp_add1_zle surj_pair)
  from loop_step_continue [OF g r] obtain s1 where
    s1: "loop_step w a (Some n) model s = Continue s1" "iteration s1 = iteration s + 1"
      "sessions s1 = sessions s @ [iteration s + 1]"
      "log_file s1 = log_file s @ logged_entry w a model (iteration s + 1)"
      "sleeps s1 = sleeps s @ AUTO_CONTINUE_DELAY # (if iteration s + 1 < n then [1] else [])"
    by auto
  have k: "k = nat (n - iteration s1)" using Suc.hyps(2) s1(2) by simp
  have le: "iteration s1 \<le> n" using lt s1(2) by simp
  have all: "\<forall>i. iteration s1 < i \<and> i \<le> n \<longrightarrow> (\<exists>r. iteration_outcome w a model i = Inr r)"
    using Suc.prems(2) s1(2) by simp
  from Suc.hyps(1) [OF k le all] obtain s' where
    s': "while_true w a (Some n) model s1 = Some (Completed s')" "iteration s' = n + 1"
      "sessions s' = sessions s1 @ [iteration s1 + 1..n]"
      "log_file s' = log_file s1 @ concat (map (logged_entry w a model) [iteration s1 + 1..n])"
      "sleeps s' = sleeps s1 @
         concat (map (\<lambda>i. AUTO_CONTINUE_DELAY # (if i < n then [1] else [])) [iteration s1 + 1..n])"
    by blast
  have u: "[iteration s + 1..n] = (iteration s + 1) # [iteration s1 + 1..n]"
    using lt s1(2) by (simp add: upto_rec1)
  have "while_true w a (Some n) model s = Some (Completed s')"
    by (subst while_true.simps) (simp add: s1(1) s'(1))
  with s' s1 u show ?case by simp
qed

lemma while_true_unbounded:
  assumes "while_true w a m model s = Some y"
      and "m = None \<or> m = Some 0"
      and "\<forall>i. iteration s < i \<longrightarrow> (\<exists>r. iteration_outcome w a model i = Inr r)"
  shows False
proof -
  have "(m = None \<or> m = Some 0) \<longrightarrow>
        (\<forall>i. iteration s < i \<longrightarrow> (\<exists>r. iteration_outcome w a model i = Inr r)) \<longrightarrow> False"
  proof (rule while_true.raw_induct
      [where P = "\<lambda>w a m model s y. (m = None \<or> m = Some 0) \<longrightarrow>
        (\<forall>i. iteration s < i \<longrightarrow> (\<exists>r. iteration_outcome w a model i = Inr r)) \<longrightarrow> False",
       OF _ assms(1)])
    fix f :: "world \<Rightarrow> string \<Rightarrow> int option \<Rightarrow> string \<Rightarrow> build_state \<Rightarrow> run option"
    fix w a m model s y
    assume IH: "\<And>w a m model s y. f w a m model s = Some y \<Longrightarrow>
        (m = None \<or> m = Some 0) \<longrightarrow>
        (\<forall>i. iteration s < i \<longrightarrow> (\<exists>r. iteration_outcome w a model i = Inr r)) \<longrightarrow> False"
      and step: "(case loop_step w a m model s of
                    Continue s' \<Rightarrow> f w a m model s'
                  | Break s' \<Rightarrow> Some (Completed s')
                  | Raised e s' \<Rightarrow> Some (Uncaught e s')) = Some y"
    show "(m = None \<or> m = Some 0) \<longrightarrow>
        (\<forall>i. iteration s < i \<longrightarrow> (\<exists>r. iteration_outcome w a model i = Inr r)) \<longrightarrow> False"
    proof (intro impI)
      assume m: "m = None \<or> m = Some 0"
        and all: "\<forall>i. iteration s < i \<longrightarrow> (\<exists>r. iteration_outcome w a model i = Inr r)"
      from m have g: "\<not> max_reached m (iteration s + 1)" by (auto simp: max_reached_def)
      from all have "\<exists>r. iteration_outcome w a model (iteration s + 1) = Inr r" by simp
      then obtain status response where
        r: "iteration_outcome w a model (iteration s + 1) = Inr (status, response)"
        by (metis surj_pair)
      from loop_step_continue [OF g r] obtain s1 where
        s1: "loop_step w a m model s = Continue s1" "iteration s1 = iteration s + 1"
        by auto
      from step s1(1) have "f w a m model s1 = Some y" by simp
      moreover have "\<forall>i. iteration s1 < i \<longrightarrow> (\<exists>r. iteration_outcome w a model i = Inr r)"
        using all s1(2) by simp
      ultimately show False using IH m by blast
    qed
  qed
  with assms(2,3) show False by blast
qed

lemma while_true_negative:
  assumes "n < 0" and "iteration s = 0"
  shows "\<exists>s'. while_true w a (Some n) model s = Some (Completed s') \<and> iteration s' = 1 \<and>
           sessions s' = sessions s \<and> log_file s' = log_file s \<and> sleeps s' = sleeps s"
proof -
  from assms have "max_reached (Some n) (iteration s + 1)" by (simp add: max_reached_def)
  from loop_step_break [OF this, of w a model] obtain s' where
    s': "loop_step w a (Some n) model s = Break s'" "iteration s' = iteration s + 1"
      "sessions s' = sessions s" "log_file s' = log_file s" "sleeps s' = sleeps s"
    by blast
  have "while_true w a (Some n) model s = Some (Completed s')"
    by (subst while_true.simps) (simp add: s'(1))
  with s' assms show ?thesis by simp
qed

lemma initial_state_fields:
  "iteration (initial_state a m model) = 0"
  "sessions (initial_state a m model) = []"
  "log_file (initial_state a m model) = []"
  "sleeps (initial_state a m model) = []"
  by (simp_all add: initial_state_def)

lemma final_summary_fields:
  "iteration (final_summary w a s) = iteration s"
  "sessions (final_summary w a s) = sessions s"
  "log_file (final_summary w a s) = log_file s"
  "sleeps (final_summary w a s) = sleeps s"
  by (simp_all add: final_summary_def)

lemma run_bounded:
  assumes "0 < n"
      and "\<forall>i. 0 < i \<and> i \<le> n \<longrightarrow> (\<exists>r. iteration_outcome w a model i = Inr r)"
  shows "\<exists>s. run_continuous_build w a (Some n) model = Some (Completed s) \<and>
           iteration s = n + 1 \<and>
           sessions s = [1..n] \<and>
           log_file s = concat (map (logged_entry w a model) [1..n]) \<and>
           sleeps s = concat (map (\<lambda>i. AUTO_CONTINUE_DELAY # (if i < n then [1] else [])) [1..n])"
proof -
  let ?s0 = "initial_state a (Some n) model"
  have "iteration ?s0 \<le> n" using assms(1) by (simp add: initial_state_fields)
  moreover have "\<forall>i. iteration ?s0 < i \<and> i \<le> n \<longrightarrow> (\<exists>r. iteration_outcome w a model i = Inr r)"
    using assms(2) by (simp add: initial_state_fields)
  ultimately obtain s' where
    s': "while_true w a (Some n) model ?s0 = Some (Completed s')" "iteration s' = n + 1"
      "sessions s' = sessions ?s0 @ [iteration ?s0 + 1..n]"
      "log_file s' = log_file ?s0 @ concat (map (logged_entry w a model) [iteration ?s0 + 1..n])"
      "sleeps s' = sleeps ?s0 @
         concat (map (\<lambda>i. AUTO_CONTINUE_DELAY # (if i < n then [1] else [])) [iteration ?s0 + 1..n])"
    using while_true_bounded [OF assms(1), of ?s0 w a model] by blast
  have "run_continuous_build w a (Some n) model = Some (Completed (final_summary w a s'))"
    by (simp add: run_continuous_build_def s'(1))
  with s'(2-) show ?thesis
    by (simp add: final_summary_fields initial_state_fields)
qed

lemma run_unbounded:
  assumes "m = None \<or> m = Some 0"
      and "\<forall>i. 0 < i \<longrightarrow> (\<exists>r. iteration_outcome w a model i = Inr r)"
  shows "run_continuous_build w a m model = None"
proof -
  have "while_true w a m model (initial_state a m model) = None"
  proof (cases "while_true w a m model (initial_state a m model)")
    case (Some y)
    from while_true_unbounded [OF Some assms(1)] assms(2) show ?thesis
      by (simp add: initial_state_fields)
  qed simp
  then show ?thesis by (simp add: run_continuous_build_def)
qed

lemma run_negative:
  assumes "n < 0"
  shows "\<exists>s. run_continuous_build w a (Some n) model = Some (Completed s) \<and>
           iteration s = 1 \<and> sessions s = [] \<and> log_file s = [] \<and> sleeps s = []"
proof -
  from while_true_negative [OF assms, of "initial_state a (Some n) model" w a model]
  obtain s' where s': "while_true w a (Some n) model (initial_state a (Some n) model) = Some (Completed s')"
    "iteration s' = 1" "sessions s' = []" "log_file s' = []" "sleeps s' = []"
    by (auto simp: initial_state_fields)
  have "run_continuous_build w a (Some n) model = Some (Completed (final_summary w a s'))"
    by (simp add: run_continuous_build_def s'(1))
  with s'(2-) show ?thesis by (simp add: final_summary_fields)
qed

lemma loop_step_ContinueD:
  assumes "loop_step w a m model s = Continue s'"
  shows "\<not> max_reached m (iteration s + 1) \<and>
         (\<exists>status response. iteration_outcome w a model (iteration s + 1) = Inr (status, response))"
proof (cases "max_reached m (iteration s + 1)")
  case True
  from loop_step_break [OF True, of w a model] assms show ?thesis by auto
next
  case False
  show ?thesis
  proof (cases "iteration_outcome w a model (iteration s + 1)")
    case (Inl e)
    from loop_step_raised [OF False Inl] assms show ?thesis by auto
  next
    case (Inr r)
    with False show ?thesis by (cases r) simp
  qed
qed

lemma loop_step_Continue_fields:
  assumes "loop_step w a m model s = Continue s'"
  shows "iteration s' = iteration s + 1"
    and "sessions s' = sessions s @ [iteration s + 1]"
    and "log_file s' = log_file s @ logged_entry w a model (iteration s + 1)"
    and "sleeps s' = sleeps s @ AUTO_CONTINUE_DELAY #
           (if (case m of None \<Rightarrow> True | Some k \<Rightarrow> iteration s + 1 < k) then [1] else [])"
proof -
  from loop_step_ContinueD [OF assms] obtain status response where
    g: "\<not> max_reached m (iteration s + 1)"
    and r: "iteration_outcome w a model (iteration s + 1) = Inr (status, response)"
    by blast
  from loop_step_continue [OF g r] assms
  show "iteration s' = iteration s + 1"
    and "sessions s' = sessions s @ [iteration s + 1]"
    and "log_file s' = log_file s @ logged_entry w a model (iteration s + 1)"
    and "sleeps s' = sleeps s @ AUTO_CONTINUE_DELAY #
           (if (case m of None \<Rightarrow> True | Some k \<Rightarrow> iteration s + 1 < k) then [1] else [])"
    by auto
qed

lemma while_true_Continue:
  "loop_step w a m model s = Continue s' \<Longrightarrow>
   while_true w a m model s = while_true w a m model s'"
  by (subst while_true.simps) simp

lemma iteration_outcome_constant:
  assumes "get_agent_prompt a i = Inr p"
  shows "iteration_outcome (constant_world c) a model i =
           (case leaving c p of
              Some e \<Rightarrow> if is_Exception e then Inr (''error'', str_exn e) else Inl e
            | None \<Rightarrow> Inr (''success'', collected_text (fst (receive_response c p))))"
  unfolding iteration_outcome_def
  by (rule snd_run_agent_iteration [where create_client = "runtime_at (constant_world c) i", OF _ assms])
     (simp add: constant_world_def)

lemma iteration_outcome_steady:
  "iteration_outcome (steady_world events) a model i = Inr (''success'', aggregated_text events)"
  unfolding iteration_outcome_def steady_world_def
  by (rule run_agent_iteration_streaming) (simp add: constant_world_def)

section \<open>The claims about the builder\<close>

text \<open>
  C1 (as stated): every exception raised while the response is iterated is caught by
  \<open>run_agent_iteration\<close>. The handler is \<open>except Exception\<close>: an exception that is not an
  instance of \<open>Exception\<close> (here the one raised on an interrupt) leaves the function.
\<close>

theorem interrupt_propagates:
  "snd (run_agent_iteration
          (runtime_at (constant_world (interrupted_client (BaseException ''KeyboardInterrupt''))) 1)
          ''orchestrator'' 1 ''claude-sonnet-4-5'') =
     Inl (BaseException ''KeyboardInterrupt'')"
proof -
  obtain p where p: "get_agent_prompt ''orchestrator'' 1 = Inr p" using prompt_exists by blast
  have "iteration_outcome (constant_world (interrupted_client (BaseException ''KeyboardInterrupt'')))
          ''orchestrator'' ''claude-sonnet-4-5'' 1 = Inl (BaseException ''KeyboardInterrupt'')"
    by (simp add: iteration_outcome_constant [OF p] leaving_def interrupted_client_def)
  then show ?thesis by (simp only: iteration_outcome_def)
qed

text \<open>
  C1 (amended): when the client has been created, an exception that is an instance of
  \<open>Exception\<close> and is raised on entering the session, on submitting the prompt or while
  the response is iterated (the exit of the session raising nothing) makes
  \<open>run_agent_iteration\<close> return \<open>("error", str(e))\<close>; the loop then goes on with the next
  state instead of ending.
\<close>

theorem iteration_exception_is_caught:
  assumes "runtime_at w (iteration s + 1) ECHO_MVP_DIR model = Inr c"
      and "is_Exception e"
      and "aexit c = None"
      and "aenter c = Some e \<or>
           (aenter c = None \<and>
            (\<forall>p. get_agent_prompt agent_type (iteration s + 1) = Inr p \<longrightarrow> query c p = Some e)) \<or>
           (aenter c = None \<and>
            (\<forall>p. get_agent_prompt agent_type (iteration s + 1) = Inr p \<longrightarrow>
                 query c p = None \<and> snd (receive_response c p) = Some e))"
      and "\<not> max_reached max_iterations (iteration s + 1)"
  shows "snd (run_agent_iteration (runtime_at w (iteration s + 1)) agent_type (iteration s + 1) model) =
           Inr (''error'', str_exn e) \<and>
         (\<exists>s'. loop_step w agent_type max_iterations model s = Continue s' \<and>
               iteration s' = iteration s + 1 \<and>
               while_true w agent_type max_iterations model s =
               while_true w agent_type max_iterations model s')"
proof -
  obtain p where p: "get_agent_prompt agent_type (iteration s + 1) = Inr p"
    using prompt_exists by blast
  from assms(3,4) p have "leaving c p = Some e"
    by (auto simp: leaving_def)
  with assms(2) have r: "snd (run_agent_iteration (runtime_at w (iteration s + 1)) agent_type
      (iteration s + 1) model) = Inr (''error'', str_exn e)"
    by (simp add: snd_run_agent_iteration
        [where create_client = "runtime_at w (iteration s + 1)", OF assms(1) p])
  then have "iteration_outcome w agent_type model (iteration s + 1) = Inr (''error'', str_exn e)"
    by (simp only: iteration_outcome_def)
  from loop_step_continue [OF assms(5) this] obtain s' where
    s': "loop_step w agent_type max_iterations model s = Continue s'" "iteration s' = iteration s + 1"
    by blast
  from s' while_true_Continue [OF s'(1)] r show ?thesis by blast
qed

theorem iteration_exception_is_caught_witness:
  "snd (run_agent_iteration
          (runtime_at (constant_world (failing_client (Exception ''connection lost'')))
             (iteration (initial_state ''email'' None ''claude-sonnet-4-5'') + 1))
          ''email'' (iteration (initial_state ''email'' None ''claude-sonnet-4-5'') + 1)
          ''claude-sonnet-4-5'') =
     Inr (''error'', ''connection lost'') \<and>
   (\<exists>s'. loop_step (constant_world (failing_client (Exception ''connection lost''))) ''email'' None
           ''claude-sonnet-4-5'' (initial_state ''email'' None ''claude-sonnet-4-5'') = Continue s' \<and>
         iteration s' = 1)"
proof -
  let ?c = "failing_client (Exception ''connection lost'')"
  let ?w = "constant_world ?c"
  let ?s = "initial_state ''email'' None ''claude-sonnet-4-5''"
  have 1: "runtime_at ?w (iteration ?s + 1) ECHO_MVP_DIR ''claude-sonnet-4-5'' = Inr ?c"
    by (simp add: constant_world_def)
  have 2: "is_Exception (Exception ''connection lost'')" by simp
  have 3: "aexit ?c = None" by (simp add: failing_client_def)
  have 4: "aenter ?c = Some (Exception ''connection lost'') \<or>
           (aenter ?c = None \<and>
            (\<forall>p. get_agent_prompt ''email'' (iteration ?s + 1) = Inr p \<longrightarrow>
                 query ?c p = Some (Exception ''connection lost''))) \<or>
           (aenter ?c = None \<and>
            (\<forall>p. get_agent_prompt ''email'' (iteration ?s + 1) = Inr p \<longrightarrow>
                 query ?c p = None \<and> snd (receive_response ?c p) = Some (Exception ''connection lost'')))"
    by (simp add: failing_client_def)
  have 5: "\<not> max_reached None (iteration ?s + 1)" by (simp add: max_reached_def)
  from iteration_exception_is_caught [OF 1 2 3 4 5] show ?thesis
    by (auto simp: initial_state_fields)
qed

text \<open>
  C2 (as stated): with the maximum 0 the run would perform no iteration and end. The guard
  tests the truth value of \<open>max_iterations\<close>, so with 0 it never fires: the run does not end.
\<close>

theorem zero_maximum_never_ends:
  "run_continuous_build (steady_world []) ''orchestrator'' (Some 0) ''claude-sonnet-4-5'' = None"
  by (rule run_unbounded) (simp_all add: iteration_outcome_steady)

text \<open>
  C2 (amended): for every maximum \<open>n \<ge> 1\<close>, when no exception leaves
  \<open>run_agent_iteration\<close> in the iterations 1 to \<open>n\<close>, the run calls it for exactly the
  iterations 1, ..., \<open>n\<close> and then ends, the counter being \<open>n + 1\<close>.
\<close>

theorem maximum_bounds_the_run:
  assumes "0 < n"
      and "\<forall>i. 0 < i \<and> i \<le> n \<longrightarrow> (\<exists>r. iteration_outcome w agent_type model i = Inr r)"
  shows "\<exists>s. run_continuous_build w agent_type (Some n) model = Some (Completed s) \<and>
             sessions s = [1..n] \<and> int (length (sessions s)) = n \<and> iteration s = n + 1"
proof -
  from run_bounded [OF assms] obtain s where
    s: "run_continuous_build w agent_type (Some n) model = Some (Completed s)"
      "iteration s = n + 1" "sessions s = [1..n]"
    by blast
  from s(3) assms(1) have "int (length (sessions s)) = n" by simp
  with s show ?thesis by blast
qed

theorem maximum_bounds_the_run_witness:
  "(0::int) < 3 \<and>
   (\<exists>r. iteration_outcome (steady_world [TextFragment ''ok'']) ''email'' ''claude-sonnet-4-5'' 3 = Inr r) \<and>
   (\<exists>s. run_continuous_build (steady_world [TextFragment ''ok'']) ''email'' (Some 3) ''claude-sonnet-4-5'' =
          Some (Completed s) \<and>
        sessions s = [1, 2, 3] \<and> int (length (sessions s)) = 3 \<and> iteration s = 4)"
proof -
  have 1: "(0::int) < 3" by simp
  have 2: "\<forall>i. 0 < i \<and> i \<le> 3 \<longrightarrow>
        (\<exists>r. iteration_outcome (steady_world [TextFragment ''ok'']) ''email'' ''claude-sonnet-4-5'' i = Inr r)"
    by (simp add: iteration_outcome_steady)
  have 3: "[1..3] = [1, 2, 3::int]" by (simp add: upto_rec1)
  from 2 have 4: "\<exists>r. iteration_outcome (steady_world [TextFragment ''ok'']) ''email''
      ''claude-sonnet-4-5'' 3 = Inr r"
    by simp
  from maximum_bounds_the_run [OF 1 2] 1 4 show ?thesis
    by (simp add: 3)
qed

text \<open>
  C6: the outcome of every iteration that returns is written to the session log whatever
  its status; each write appends one entry and leaves what was written before in place.
  An entry is the line of 70 equals signs, the line with the iteration number and the time
  stamp, the line of equals signs again, and the whole text of the response followed by a
  line feed. After two passes of the loop the file is what it was, then the entry with the
  first response, then the entry with the second; after a run of \<open>n\<close> iterations it is the
  entries of the iterations 1, ..., \<open>n\<close> in this order, each one complete.
\<close>

theorem session_log_is_appended_in_order:
  assumes "0 < n"
      and "\<forall>i. 0 < i \<and> i \<le> n \<longrightarrow> (\<exists>r. iteration_outcome w agent_type model i = Inr r)"
  shows "(\<exists>s. run_continuous_build w agent_type (Some n) model = Some (Completed s) \<and>
              log_file s = concat (map (logged_entry w agent_type model) [1..n])) \<and>
         (\<forall>i status response.
            iteration_outcome w agent_type model i = Inr (status, response) \<longrightarrow>
            logged_entry w agent_type model i = log_entry i (isoformat_now w i) response) \<and>
         (\<forall>m s0 s1. loop_step w agent_type m model s0 = Continue s1 \<longrightarrow>
            log_file s1 = log_file s0 @ logged_entry w agent_type model (iteration s0 + 1) \<and>
            prefix (log_file s0) (log_file s1)) \<and>
         (\<forall>m s0 status response.
            \<not> max_reached m (iteration s0 + 1) \<and>
            iteration_outcome w agent_type model (iteration s0 + 1) = Inr (status, response) \<longrightarrow>
            (\<exists>s1. loop_step w agent_type m model s0 = Continue s1 \<and>
                  log_file s1 =
                    log_file s0 @
                    log_entry (iteration s0 + 1) (isoformat_now w (iteration s0 + 1)) response)) \<and>
         (\<forall>i stamp response.
            log_entry i stamp response =
              ''\<newline>'' @ replicate 70 CHR ''='' @ ''\<newline>'' @
              ''Iteration '' @ str_int i @ '' - '' @ stamp @ ''\<newline>'' @
              replicate 70 CHR ''='' @ ''\<newline>'' @
              response @ ''\<newline>'') \<and>
         (\<forall>i stamp response.
            sublist (response @ ''\<newline>'') (log_entry i stamp response) \<and>
            suffix (response @ ''\<newline>'') (log_entry i stamp response) \<and>
            length response < length (log_entry i stamp response)) \<and>
         (\<forall>m s0 status1 response1 status2 response2.
            \<not> max_reached m (iteration s0 + 1) \<and> \<not> max_reached m (iteration s0 + 2) \<and>
            iteration_outcome w agent_type model (iteration s0 + 1) = Inr (status1, response1) \<and>
            iteration_outcome w agent_type model (iteration s0 + 2) = Inr (status2, response2) \<longrightarrow>
            (\<exists>s1 s2. loop_step w agent_type m model s0 = Continue s1 \<and>
                     loop_step w agent_type m model s1 = Continue s2 \<and>
                     log_file s2 =
                       log_file s0 @
                       (''\<newline>'' @ replicate 70 CHR ''='' @ ''\<newline>'' @
                        ''Iteration '' @ str_int (iteration s0 + 1) @ '' - '' @
                        isoformat_now w (iteration s0 + 1) @ ''\<newline>'' @
                        replicate 70 CHR ''='' @ ''\<newline>'' @
                        response1 @ ''\<newline>'') @
                       (''\<newline>'' @ replicate 70 CHR ''='' @ ''\<newline>'' @
                        ''Iteration '' @ str_int (iteration s0 + 2) @ '' - '' @
                        isoformat_now w (iteration s0 + 2) @ ''\<newline>'' @
                        replicate 70 CHR ''='' @ ''\<newline>'' @
                        response2 @ ''\<newline>'')))"
proof -
  have entry: "log_entry i stamp response =
      ''\<newline>'' @ replicate 70 CHR ''='' @ ''\<newline>'' @
      ''Iteration '' @ str_int i @ '' - '' @ stamp @ ''\<newline>'' @
      replicate 70 CHR ''='' @ ''\<newline>'' @
      response @ ''\<newline>''" for i stamp response
    by (simp only: log_entry_def rule_line_def)
  have step: "\<exists>s1. loop_step w agent_type m model s0 = Continue s1 \<and>
      iteration s1 = iteration s0 + 1 \<and>
      log_file s1 =
        log_file s0 @ log_entry (iteration s0 + 1) (isoformat_now w (iteration s0 + 1)) response"
    if g: "\<not> max_reached m (iteration s0 + 1)"
      and r: "iteration_outcome w agent_type model (iteration s0 + 1) = Inr (status, response)"
    for m :: "int option" and s0 :: build_state and status response :: string
  proof -
    from loop_step_continue [OF g r] obtain s1 where
      s1: "loop_step w agent_type m model s0 = Continue s1" "iteration s1 = iteration s0 + 1"
        "log_file s1 = log_file s0 @ logged_entry w agent_type model (iteration s0 + 1)"
      by blast
    from r have "logged_entry w agent_type model (iteration s0 + 1) =
        log_entry (iteration s0 + 1) (isoformat_now w (iteration s0 + 1)) response"
      by (simp add: logged_entry_def)
    with s1 show ?thesis by simp
  qed
  show ?thesis
  proof (intro conjI allI impI)
    from run_bounded [OF assms]
    show "\<exists>s. run_continuous_build w agent_type (Some n) model = Some (Completed s) \<and>
                log_file s = concat (map (logged_entry w agent_type model) [1..n])"
      by blast
  next
    fix i status response
    assume "iteration_outcome w agent_type model i = Inr (status, response)"
    then show "logged_entry w agent_type model i = log_entry i (isoformat_now w i) response"
      by (simp add: logged_entry_def)
  next
    fix m s0 s1
    assume "loop_step w agent_type m model s0 = Continue s1"
    from loop_step_Continue_fields(3) [OF this]
    show l: "log_file s1 = log_file s0 @ logged_entry w agent_type model (iteration s0 + 1)" .
    then show "prefix (log_file s0) (log_file s1)" by simp
  next
    fix m :: "int option" and s0 :: build_state and status response :: string
    assume "\<not> max_reached m (iteration s0 + 1) \<and>
      iteration_outcome w agent_type model (iteration s0 + 1) = Inr (status, response)"
    then have "\<not> max_reached m (iteration s0 + 1)"
      and "iteration_outcome w agent_type model (iteration s0 + 1) = Inr (status, response)"
      by simp_all
    from step [OF this]
    show "\<exists>s1. loop_step w agent_type m model s0 = Continue s1 \<and>
        log_file s1 =
          log_file s0 @ log_entry (iteration s0 + 1) (isoformat_now w (iteration s0 + 1)) response"
      by blast
  next
    fix i :: int and stamp response :: string
    show "log_entry i stamp response =
      ''\<newline>'' @ replicate 70 CHR ''='' @ ''\<newline>'' @
      ''Iteration '' @ str_int i @ '' - '' @ stamp @ ''\<newline>'' @
      replicate 70 CHR ''='' @ ''\<newline>'' @
      response @ ''\<newline>''"
      by (rule entry)
    have "log_entry i stamp response =
        (''\<newline>'' @ replicate 70 CHR ''='' @ ''\<newline>'' @
         ''Iteration '' @ str_int i @ '' - '' @ stamp @ ''\<newline>'' @
         replicate 70 CHR ''='' @ ''\<newline>'') @ (response @ ''\<newline>'')"
      by (simp only: entry append_assoc)
    then show sf: "suffix (response @ ''\<newline>'') (log_entry i stamp response)"
      by (simp only: suffix_def) blast
    then show "sublist (response @ ''\<newline>'') (log_entry i stamp response)"
      by (rule suffix_imp_sublist)
    from sf have "length (response @ ''\<newline>'') \<le> length (log_entry i stamp response)"
      by (rule suffix_length_le)
    then show "length response < length (log_entry i stamp response)" by simp
  next
    fix m :: "int option" and s0 :: build_state
      and status1 response1 status2 response2 :: string
    assume a: "\<not> max_reached m (iteration s0 + 1) \<and> \<not> max_reached m (iteration s0 + 2) \<and>
      iteration_outcome w agent_type model (iteration s0 + 1) = Inr (status1, response1) \<and>
      iteration_outcome w agent_type model (iteration s0 + 2) = Inr (status2, response2)"
    then have g1: "\<not> max_reached m (iteration s0 + 1)"
      and r1: "iteration_outcome w agent_type model (iteration s0 + 1) = Inr (status1, response1)"
      by simp_all
    from step [OF g1 r1] obtain s1 where
      s1: "loop_step w agent_type m model s0 = Continue s1" "iteration s1 = iteration s0 + 1"
        "log_file s1 =
           log_file s0 @ log_entry (iteration s0 + 1) (isoformat_now w (iteration s0 + 1)) response1"
      by blast
    have i2: "iteration s1 + 1 = iteration s0 + 2" using s1(2) by simp
    from a have "\<not> max_reached m (iteration s0 + 2)"
      and "iteration_outcome w agent_type model (iteration s0 + 2) = Inr (status2, response2)"
      by blast+
    then have g2: "\<not> max_reached m (iteration s1 + 1)"
      and r2: "iteration_outcome w agent_type model (iteration s1 + 1) = Inr (status2, response2)"
      by (simp_all add: i2)
    from step [OF g2 r2] obtain s2 where
      s2: "loop_step w agent_type m model s1 = Continue s2"
        "log_file s2 =
           log_file s1 @ log_entry (iteration s1 + 1) (isoformat_now w (iteration s1 + 1)) response2"
      by blast
    have "log_file s2 =
        log_file s0 @
        log_entry (iteration s0 + 1) (isoformat_now w (iteration s0 + 1)) response1 @
        log_entry (iteration s0 + 2) (isoformat_now w (iteration s0 + 2)) response2"
      by (simp only: s2(2) s1(3) i2 append_assoc)
    then have "log_file s2 =
        log_file s0 @
        (''\<newline>'' @ replicate 70 CHR ''='' @ ''\<newline>'' @
         ''Iteration '' @ str_int (iteration s0 + 1) @ '' - '' @
         isoformat_now w (iteration s0 + 1) @ ''\<newline>'' @
         replicate 70 CHR ''='' @ ''\<newline>'' @
         response1 @ ''\<newline>'') @
        (''\<newline>'' @ replicate 70 CHR ''='' @ ''\<newline>'' @
         ''Iteration '' @ str_int (iteration s0 + 2) @ '' - '' @
         isoformat_now w (iteration s0 + 2) @ ''\<newline>'' @
         replicate 70 CHR ''='' @ ''\<newline>'' @
         response2 @ ''\<newline>'')"
      by (simp only: entry)
    with s1(1) s2(1)
    show "\<exists>s1 s2. loop_step w agent_type m model s0 = Continue s1 \<and>
        loop_step w agent_type m model s1 = Continue s2 \<and>
        log_file s2 =
          log_file s0 @
          (''\<newline>'' @ replicate 70 CHR ''='' @ ''\<newline>'' @
           ''Iteration '' @ str_int (iteration s0 + 1) @ '' - '' @
           isoformat_now w (iteration s0 + 1) @ ''\<newline>'' @
           replicate 70 CHR ''='' @ ''\<newline>'' @
           response1 @ ''\<newline>'') @
          (''\<newline>'' @ replicate 70 CHR ''='' @ ''\<newline>'' @
           ''Iteration '' @ str_int (iteration s0 + 2) @ '' - '' @
           isoformat_now w (iteration s0 + 2) @ ''\<newline>'' @
           replicate 70 CHR ''='' @ ''\<newline>'' @
           response2 @ ''\<newline>'')"
      by blast
  qed
qed

theorem session_log_is_appended_in_order_witness:
  "(0::int) < 2 \<and>
   iteration_outcome mixed_world ''email'' ''claude-sonnet-4-5'' 1 =
     Inr (''success'', ''schema created'') \<and>
   iteration_outcome mixed_world ''email'' ''claude-sonnet-4-5'' 2 =
     Inr (''error'', ''connection lost'') \<and>
   (\<exists>s. run_continuous_build mixed_world ''email'' (Some 2) ''claude-sonnet-4-5'' =
          Some (Completed s) \<and>
        log_file s =
          ''\<newline>'' @
          ''======================================================================\<newline>'' @
          ''Iteration 1 - 2025-01-01T00:00:00\<newline>'' @
          ''======================================================================\<newline>'' @
          ''schema created\<newline>'' @
          ''\<newline>'' @
          ''======================================================================\<newline>'' @
          ''Iteration 2 - 2025-01-01T00:05:07\<newline>'' @
          ''======================================================================\<newline>'' @
          ''connection lost\<newline>'')"
proof -
  let ?w = "mixed_world"
  have o1: "iteration_outcome ?w ''email'' ''claude-sonnet-4-5'' 1 =
      Inr (''success'', ''schema created'')"
  proof -
    have "iteration_outcome ?w ''email'' ''claude-sonnet-4-5'' 1 =
        Inr (''success'', aggregated_text [TextFragment ''schema created''])"
      unfolding iteration_outcome_def
      by (rule run_agent_iteration_streaming) (simp add: mixed_world_def)
    then show ?thesis by (simp add: aggregated_text_def)
  qed
  have o2: "iteration_outcome ?w ''email'' ''claude-sonnet-4-5'' 2 =
      Inr (''error'', ''connection lost'')"
  proof -
    obtain p where p: "get_agent_prompt ''email'' 2 = Inr p" using prompt_exists by blast
    have c: "runtime_at ?w 2 ECHO_MVP_DIR ''claude-sonnet-4-5'' =
        Inr (failing_client (Exception ''connection lost''))"
      by (simp add: mixed_world_def)
    show ?thesis
      unfolding iteration_outcome_def
      by (simp add: snd_run_agent_iteration [where create_client = "runtime_at ?w 2", OF c p]
          leaving_def failing_client_def)
  qed
  have 1: "(0::int) < 2" by simp
  have 2: "\<forall>i. 0 < i \<and> i \<le> 2 \<longrightarrow>
        (\<exists>r. iteration_outcome ?w ''email'' ''claude-sonnet-4-5'' i = Inr r)"
  proof (intro allI impI)
    fix i :: int
    assume "0 < i \<and> i \<le> 2"
    then have "i = 1 \<or> i = 2" by arith
    with o1 o2 show "\<exists>r. iteration_outcome ?w ''email'' ''claude-sonnet-4-5'' i = Inr r"
      by blast
  qed
  have 3: "[1..2] = [1, 2::int]" by (simp add: upto_rec1)
  have s1: "isoformat_now ?w 1 = ''2025-01-01T00:00:00''" by (simp add: mixed_world_def)
  have s2: "isoformat_now ?w 2 = ''2025-01-01T00:05:07''" by (simp add: mixed_world_def)
  have e1: "logged_entry ?w ''email'' ''claude-sonnet-4-5'' 1 =
      ''\<newline>'' @
      ''======================================================================\<newline>'' @
      ''Iteration 1 - 2025-01-01T00:00:00\<newline>'' @
      ''======================================================================\<newline>'' @
      ''schema created\<newline>''"
  proof -
    have "log_entry 1 ''2025-01-01T00:00:00'' ''schema created'' =
      ''\<newline>'' @
      ''======================================================================\<newline>'' @
      ''Iteration 1 - 2025-01-01T00:00:00\<newline>'' @
      ''======================================================================\<newline>'' @
      ''schema created\<newline>''"
      by code_simp
    then show ?thesis by (simp only: logged_entry_def o1 sum.case prod.case s1)
  qed
  have e2: "logged_entry ?w ''email'' ''claude-sonnet-4-5'' 2 =
      ''\<newline>'' @
      ''======================================================================\<newline>'' @
      ''Iteration 2 - 2025-01-01T00:05:07\<newline>'' @
      ''======================================================================\<newline>'' @
      ''connection lost\<newline>''"
  proof -
    have "log_entry 2 ''2025-01-01T00:05:07'' ''connection lost'' =
      ''\<newline>'' @
      ''======================================================================\<newline>'' @
      ''Iteration 2 - 2025-01-01T00:05:07\<newline>'' @
      ''======================================================================\<newline>'' @
      ''connection lost\<newline>''"
      by code_simp
    then show ?thesis by (simp only: logged_entry_def o2 sum.case prod.case s2)
  qed
  from session_log_is_appended_in_order [OF 1 2] have
    "\<exists>s. run_continuous_build ?w ''email'' (Some 2) ''claude-sonnet-4-5'' = Some (Completed s) \<and>
         log_file s = concat (map (logged_entry ?w ''email'' ''claude-sonnet-4-5'') [1..2])"
    by (rule conjunct1)
  then obtain s where
    s: "run_continuous_build ?w ''email'' (Some 2) ''claude-sonnet-4-5'' = Some (Completed s)"
      "log_file s = concat (map (logged_entry ?w ''email'' ''claude-sonnet-4-5'') [1..2])"
    by blast
  from s(2) have "log_file s =
      logged_entry ?w ''email'' ''claude-sonnet-4-5'' 1 @
      logged_entry ?w ''email'' ''claude-sonnet-4-5'' 2"
    by (simp add: 3)
  then have "log_file s =
          ''\<newline>'' @
          ''======================================================================\<newline>'' @
          ''Iteration 1 - 2025-01-01T00:00:00\<newline>'' @
          ''======================================================================\<newline>'' @
          ''schema created\<newline>'' @
          ''\<newline>'' @
          ''======================================================================\<newline>'' @
          ''Iteration 2 - 2025-01-01T00:05:07\<newline>'' @
          ''======================================================================\<newline>'' @
          ''connection lost\<newline>''"
    by (simp only: e1 e2 append_assoc)
  with s(1) 1 o1 o2 show ?thesis by blast
qed

text \<open>
  C8: after an iteration that returned, the loop sleeps \<open>AUTO_CONTINUE_DELAY = 5\<close>, with the
  status \<open>success\<close> as with the status \<open>error\<close> (and with any other), followed only by the
  pause of 1 when a further iteration remains; the delays of a pass do not depend on the
  outcome of the iteration or of the earlier ones.
\<close>

theorem delay_is_the_same_for_every_status:
  assumes "loop_step w agent_type m model s = Continue s'"
  shows "sleeps s' =
           sleeps s @ 5 # (if (case m of None \<Rightarrow> True | Some k \<Rightarrow> iteration s + 1 < k) then [1] else []) \<and>
         sleeps (handle_status ''success'' s) = sleeps s @ [5] \<and>
         sleeps (handle_status ''error'' s) = sleeps s @ [5] \<and>
         sleeps (handle_status status s) = sleeps s @ [5] \<and>
         AUTO_CONTINUE_DELAY = 5"
  using loop_step_Continue_fields(4) [OF assms]
  by (simp add: handle_status_fields AUTO_CONTINUE_DELAY_def)

theorem delay_is_the_same_for_every_status_witness:
  "(\<exists>s'. loop_step (constant_world (failing_client (Exception ''connection lost''))) ''email'' (Some 2)
            ''claude-sonnet-4-5'' (initial_state ''email'' (Some 2) ''claude-sonnet-4-5'') = Continue s' \<and>
          sleeps s' = [5, 1]) \<and>
   (\<exists>s'. loop_step (steady_world [TextFragment ''ok'']) ''email'' (Some 2)
            ''claude-sonnet-4-5'' (initial_state ''email'' (Some 2) ''claude-sonnet-4-5'') = Continue s' \<and>
          sleeps s' = [5, 1])"
proof -
  let ?w = "constant_world (failing_client (Exception ''connection lost''))"
  let ?v = "steady_world [TextFragment ''ok'']"
  let ?s = "initial_state ''email'' (Some 2) ''claude-sonnet-4-5''"
  obtain p where p: "get_agent_prompt ''email'' (iteration ?s + 1) = Inr p"
    using prompt_exists by blast
  have g: "\<not> max_reached (Some 2) (iteration ?s + 1)"
    by (simp add: max_reached_def initial_state_fields)
  have "iteration_outcome ?w ''email'' ''claude-sonnet-4-5'' (iteration ?s + 1) =
          Inr (''error'', ''connection lost'')"
    by (simp add: iteration_outcome_constant [OF p] leaving_def failing_client_def)
  from loop_step_continue [OF g this] obtain s1 where
    1: "loop_step ?w ''email'' (Some 2) ''claude-sonnet-4-5'' ?s = Continue s1" by blast
  have "iteration_outcome ?v ''email'' ''claude-sonnet-4-5'' (iteration ?s + 1) =
          Inr (''success'', aggregated_text [TextFragment ''ok''])"
    by (rule iteration_outcome_steady)
  from loop_step_continue [OF g this] obtain s2 where
    2: "loop_step ?v ''email'' (Some 2) ''claude-sonnet-4-5'' ?s = Continue s2" by blast
  from delay_is_the_same_for_every_status [OF 1] have "sleeps s1 = [5, 1]"
    by (simp add: initial_state_fields)
  moreover from delay_is_the_same_for_every_status [OF 2] have "sleeps s2 = [5, 1]"
    by (simp add: initial_state_fields)
  ultimately show ?thesis using 1 2 by blast
qed

text \<open>
  C9: the guard of the loop fires exactly when \<open>max_iterations\<close> is an integer other than
  0 that the incremented counter exceeds. With the maximum 0 the loop has no bound: when no
  exception leaves an iteration, the run never ends. With a negative maximum the run ends
  at once, no iteration having been performed.
\<close>

theorem cap_guard:
  "(max_reached m i \<longleftrightarrow> (\<exists>n. m = Some n \<and> n \<noteq> 0 \<and> n < i)) \<and>
   ((\<forall>j. 0 < j \<longrightarrow> (\<exists>r. iteration_outcome w agent_type model j = Inr r)) \<longrightarrow>
      run_continuous_build w agent_type (Some 0) model = None \<and>
      run_continuous_build w agent_type None model = None) \<and>
   (n < 0 \<longrightarrow>
      (\<exists>s. run_continuous_build w agent_type (Some n) model = Some (Completed s) \<and>
           sessions s = [] \<and> log_file s = [] \<and> sleeps s = [] \<and> iteration s = 1))"
proof (intro conjI impI)
  show "max_reached m i \<longleftrightarrow> (\<exists>n. m = Some n \<and> n \<noteq> 0 \<and> n < i)"
    by (cases m) (simp_all add: max_reached_def)
next
  assume a: "\<forall>j. 0 < j \<longrightarrow> (\<exists>r. iteration_outcome w agent_type model j = Inr r)"
  show "run_continuous_build w agent_type (Some 0) model = None"
    by (rule run_unbounded [OF _ a]) simp
  show "run_continuous_build w agent_type None model = None"
    by (rule run_unbounded [OF _ a]) simp
next
  assume "n < 0"
  from run_negative [OF this, of w agent_type model]
  show "\<exists>s. run_continuous_build w agent_type (Some n) model = Some (Completed s) \<and>
           sessions s = [] \<and> log_file s = [] \<and> sleeps s = [] \<and> iteration s = 1"
    by blast
qed

theorem cap_guard_witness:
  "(max_reached (Some 3) 4 \<longleftrightarrow> (\<exists>n. Some (3::int) = Some n \<and> n \<noteq> 0 \<and> n < 4)) \<and>
   \<not> max_reached (Some 0) 1 \<and>
   iteration_outcome (steady_world []) ''orchestrator'' ''claude-sonnet-4-5'' 1 = Inr (''success'', []) \<and>
   run_continuous_build (steady_world []) ''orchestrator'' (Some 0) ''claude-sonnet-4-5'' = None \<and>
   (- 1 :: int) < 0 \<and>
   (\<exists>s. run_continuous_build (steady_world []) ''orchestrator'' (Some (- 1)) ''claude-sonnet-4-5'' =
          Some (Completed s) \<and> sessions s = [])"
proof -
  have a: "\<forall>j. 0 < j \<longrightarrow>
      (\<exists>r. iteration_outcome (steady_world []) ''orchestrator'' ''claude-sonnet-4-5'' j = Inr r)"
    by (simp add: iteration_outcome_steady)
  have b: "(- 1 :: int) < 0" by simp
  note t = cap_guard [of "Some 3" 4 "steady_world []" "''orchestrator''" "''claude-sonnet-4-5''" "- 1"]
  from t have 1: "max_reached (Some 3) 4 \<longleftrightarrow> (\<exists>n. Some (3::int) = Some n \<and> n \<noteq> 0 \<and> n < 4)"
    by (rule conjunct1)
  from t a have 2: "run_continuous_build (steady_world []) ''orchestrator'' (Some 0) ''claude-sonnet-4-5'' = None"
    by blast
  from t b have 3: "\<exists>s. run_continuous_build (steady_world []) ''orchestrator'' (Some (- 1)) ''claude-sonnet-4-5'' =
          Some (Completed s) \<and> sessions s = []"
    by blast
  have 4: "\<not> max_reached (Some 0) 1" by (simp add: max_reached_def)
  have 5: "iteration_outcome (steady_world []) ''orchestrator'' ''claude-sonnet-4-5'' 1 =
      Inr (''success'', [])"
    by (simp add: iteration_outcome_steady aggregated_text_def)
  from 1 2 3 4 5 b show ?thesis by (intro conjI)
qed

section \<open>Properties of the wrapper\<close>



lemma kind_of_records:
  "kind_of (JObject [(''type'', JString k), fld]) = Some k"
  "kind_of (JObject [(''type'', JString k), fld, fld']) = Some k"
  by simp_all









section \<open>The claims about response events and the wrapper\<close>







text \<open>
  C10: called without a message argument, the wrapper prints the JSON object
  \<open>{"error": "No message provided"}\<close> and nothing else, exits with status 1, and creates
  no client.
\<close>

theorem no_message_provided:
  assumes "length argv < 2"
  shows "main rt argv =
           \<lparr>stdout = [JObject [(''error'', JString ''No message provided'')]],
            ending = Exit 1, clients = []\<rparr>"
  using assms by (simp add: main_def)

theorem no_message_provided_witness:
  "length [''claude_code_wrapper.py''] < 2 \<and>
   main (steady_runtime [TextFragment ''a'']) [''claude_code_wrapper.py''] =
     \<lparr>stdout = [JObject [(''error'', JString ''No message provided'')]],
      ending = Exit 1, clients = []\<rparr>"
proof -
  have h: "length [''claude_code_wrapper.py''] < 2" by simp
  from h no_message_provided [OF h] show ?thesis by (rule conjI)
qed

end
